theory Spec2Isabelle
  imports Main "HOL-Library.Sublist"
begin

text \<open>
  A shallow embedding of the scripts of the repository that drive a browser through a
  renewal, a check-in or a restart: the credential parsers and the serializer, the masking
  helpers, the two outcome classifiers, the challenge handler, the renewal run with its
  loop, and the exit status of each script. The browser is not modelled: what a page
  shows, and whether a call to the browser raises, is an argument of the function that
  reads it, so every theorem holds for every behaviour of the site.
\<close>

section \<open>Python strings\<close>

text \<open>
  A Python \<open>str\<close> is modelled as a \<open>string\<close> that holds its UTF-8 encoding: one \<open>char\<close>
  for a character of ASCII, two to four for any other (the literals of the scripts that
  are not ASCII are spelled out byte by byte below, with their code points). UTF-8 is
  prefix-free and self-synchronising, so concatenation, equality, the substring test
  \<open>a in b\<close>, splitting at an ASCII character and stripping white space are on the encoding
  what Python does on the characters. \<open>len\<close> and slicing count characters in Python: the
  masking helpers, which use them, read a \<open>string\<close> as one element per character.
\<close>

text \<open>\<open>needle in haystack\<close> on strings: a contiguous occurrence.\<close>

fun py_in :: "string \<Rightarrow> string \<Rightarrow> bool" where
  "py_in needle [] = (needle = [])"
| "py_in needle (c # cs) = (prefix needle (c # cs) \<or> py_in needle cs)"

text \<open>The characters that \<open>str.strip\<close> removes (those of \<open>str.isspace\<close>), encoded: U+0009
  to U+000D, U+001C to U+001F, U+0020, U+0085, U+00A0, U+1680, U+2000 to U+200A, U+2028,
  U+2029, U+202F, U+205F and U+3000.\<close>

definition ws_codes :: "string list" where
  "ws_codes =
     [[CHR 0x09], [CHR 0x0A], [CHR 0x0B], [CHR 0x0C], [CHR 0x0D],
      [CHR 0x1C], [CHR 0x1D], [CHR 0x1E], [CHR 0x1F], [CHR 0x20],
      [CHR 0xC2, CHR 0x85], [CHR 0xC2, CHR 0xA0], [CHR 0xE1, CHR 0x9A, CHR 0x80],
      [CHR 0xE2, CHR 0x80, CHR 0x80], [CHR 0xE2, CHR 0x80, CHR 0x81],
      [CHR 0xE2, CHR 0x80, CHR 0x82], [CHR 0xE2, CHR 0x80, CHR 0x83],
      [CHR 0xE2, CHR 0x80, CHR 0x84], [CHR 0xE2, CHR 0x80, CHR 0x85],
      [CHR 0xE2, CHR 0x80, CHR 0x86], [CHR 0xE2, CHR 0x80, CHR 0x87],
      [CHR 0xE2, CHR 0x80, CHR 0x88], [CHR 0xE2, CHR 0x80, CHR 0x89],
      [CHR 0xE2, CHR 0x80, CHR 0x8A], [CHR 0xE2, CHR 0x80, CHR 0xA8],
      [CHR 0xE2, CHR 0x80, CHR 0xA9], [CHR 0xE2, CHR 0x80, CHR 0xAF],
      [CHR 0xE2, CHR 0x81, CHR 0x9F], [CHR 0xE3, CHR 0x80, CHR 0x80]]"

text \<open>The length of the code that a string begins with, 0 when it begins with none.\<close>

definition head_len :: "string list \<Rightarrow> string \<Rightarrow> nat" where
  "head_len codes s = (case find (\<lambda>w. prefix w s) codes of Some w \<Rightarrow> length w | None \<Rightarrow> 0)"

text \<open>Dropping the codes that a string begins with, one after the other.\<close>

function drop_codes :: "string list \<Rightarrow> string \<Rightarrow> string" where
  "drop_codes codes [] = []"
| "drop_codes codes (c # cs) =
     (let n = head_len codes (c # cs)
      in if n = 0 then c # cs else drop_codes codes (drop (n - 1) cs))"
  by pat_completeness auto
termination
  by (relation "measure (\<lambda>(codes, s). length s)") auto

text \<open>\<open>s.lstrip()\<close>, \<open>s.rstrip()\<close> (the same from the end, with each code reversed) and
  \<open>s.strip()\<close>.\<close>

definition lstrip :: "string \<Rightarrow> string" where
  "lstrip s = drop_codes ws_codes s"

definition rstrip :: "string \<Rightarrow> string" where
  "rstrip s = rev (drop_codes (map rev ws_codes) (rev s))"

definition strip :: "string \<Rightarrow> string" where
  "strip s = rstrip (lstrip s)"

text \<open>\<open>str.lower\<close> on the letters of ASCII; every other byte is kept. Python also
  changes letters outside ASCII, and two of them give a letter of ASCII: U+0130 gives
  \<open>i\<close> followed by U+0307, and U+212A gives \<open>k\<close>. The functions modelled here look in a lowered
  string only for \<open>session\<close>, \<open>remember\<close>, \<open>exceed\<close>, \<open>cannot exceed 7 days\<close> and \<open>limit\<close>, which
  have no \<open>k\<close> and no \<open>i\<close> at their end, so these tests give what they give in Python.\<close>

definition lower_char :: "char \<Rightarrow> char" where
  "lower_char c =
     (let n = (of_char c :: nat)
      in if 65 \<le> n \<and> n \<le> 90 then char_of (n + 32) else c)"

definition lower :: "string \<Rightarrow> string" where
  "lower s = map lower_char s"

text \<open>\<open>s.split(sep)\<close> for a separator of one character: never empty, \<open>''''.split(';')\<close>
  is \<open>['''']\<close>.\<close>

fun split_char :: "char \<Rightarrow> string \<Rightarrow> string list" where
  "split_char sep [] = [[]]"
| "split_char sep (c # cs) =
     (if c = sep then [] # split_char sep cs
      else (case split_char sep cs of
              [] \<Rightarrow> [[c]]
            | p # ps \<Rightarrow> (c # p) # ps))"

text \<open>The exceptions of Python that the modelled code can meet.\<close>

datatype py_error = ValueError | AttributeError | BrowserError

text \<open>\<open>s.split(sep, 1)\<close> for a separator of one character: the text before the first
  separator and the text after it, or the string alone when it has no separator.\<close>

definition split_once :: "char \<Rightarrow> string \<Rightarrow> string list" where
  "split_once sep s =
     (if sep \<in> set s
      then [takeWhile (\<lambda>c. c \<noteq> sep) s, drop 1 (dropWhile (\<lambda>c. c \<noteq> sep) s)]
      else [s])"

text \<open>The unpacking \<open>a, b = xs\<close>: a list of any other length raises \<open>ValueError\<close>.\<close>

fun unpack2 :: "'a list \<Rightarrow> py_error + ('a \<times> 'a)" where
  "unpack2 [a, b] = Inr (a, b)"
| "unpack2 _ = Inl ValueError"

text \<open>\<open>s.index(c)\<close>: the position of the first \<open>c\<close>, \<open>ValueError\<close> when there is none.\<close>

definition py_index :: "char \<Rightarrow> string \<Rightarrow> py_error + nat" where
  "py_index c s =
     (if c \<in> set s then Inr (length (takeWhile (\<lambda>x. x \<noteq> c) s)) else Inl ValueError)"

text \<open>\<open>sep.join(parts)\<close>.\<close>

fun join :: "string \<Rightarrow> string list \<Rightarrow> string" where
  "join sep [] = []"
| "join sep [p] = p"
| "join sep (p # q # ps) = p @ sep @ join sep (q # ps)"

text \<open>\<open>s[-n:]\<close> for \<open>n \<ge> 0\<close>: the last \<open>n\<close> characters, and the whole string for
  \<open>n = 0\<close> (Python reads \<open>s[-0:]\<close> as \<open>s[0:]\<close>).\<close>

definition last_chars :: "nat \<Rightarrow> string \<Rightarrow> string" where
  "last_chars n s = (if n = 0 then s else drop (length s - n) s)"

section \<open>Masking helpers\<close>

text \<open>\<open>nodeloc/main.py\<close>, \<open>mask_username\<close>.\<close>

definition mask_username :: "string \<Rightarrow> string" where
  "mask_username username =
     (if username = [] \<or> length username \<le> 2 then ''***''
      else if length username \<le> 4
        then take 1 username @ replicate (length username - 1) CHR ''*''
      else (let show_len = min 2 (length username div 3)
            in take show_len username
               @ replicate (length username - show_len * 2) CHR ''*''
               @ last_chars show_len username))"

text \<open>\<open>scripts/Billing-Kerit_renew.py\<close>, \<open>mask\<close> (named \<open>mask_str\<close> here: \<open>mask\<close> is a
  constant of the bit operations of HOL).\<close>

definition mask_str :: "string \<Rightarrow> string" where
  "mask_str s =
     (if s = [] \<or> length s \<le> 4 then ''****''
      else take 2 s @ ''***'' @ last_chars 2 s)"

text \<open>\<open>scripts/panel-na1_renew.py\<close>, \<open>mask_id\<close>: an identifier of one or two
  characters is returned as it is.\<close>

definition mask_id :: "string \<Rightarrow> string" where
  "mask_id server_id =
     (if server_id = [] \<or> length server_id \<le> 2 then server_id
      else take 1 server_id
           @ replicate (length server_id - 2) CHR ''*''
           @ last_chars 1 server_id)"

text \<open>The shape every masked string has: at most two leading characters of the input,
  then stars only, then at most two trailing characters of the input, the two parts
  never overlapping.\<close>

definition masked_shape :: "string \<Rightarrow> string \<Rightarrow> bool" where
  "masked_shape s out =
     (\<exists>a b n. out = take a s @ replicate n CHR ''*'' @ drop (length s - b) s
              \<and> a \<le> 2 \<and> b \<le> 2 \<and> a + b \<le> length s)"

section \<open>Credential store adapter\<close>

text \<open>A Python \<open>dict\<close> from names to values keeps its keys in insertion order; assigning
  to a key that is present replaces the value where the key stands.\<close>

type_synonym py_dict = "(string \<times> string) list"

fun dict_set :: "py_dict \<Rightarrow> string \<Rightarrow> string \<Rightarrow> py_dict" where
  "dict_set [] k v = [(k, v)]"
| "dict_set ((k', v') # d) k v =
     (if k' = k then (k, v) # d else (k', v') # dict_set d k v)"

subsection \<open>\<open>scripts/Billing-Kerit_renew.py\<close>: \<open>parse_cookies\<close>\<close>

text \<open>The body of \<open>for part in cookie_str.split(";")\<close>, with the dictionary \<open>seen\<close>.\<close>

fun parse_cookies_loop :: "string list \<Rightarrow> py_dict \<Rightarrow> py_error + py_dict" where
  "parse_cookies_loop [] seen = Inr seen"
| "parse_cookies_loop (part # parts) seen =
     (let part = strip part in
      if py_in ''='' part then
        (case unpack2 (split_once CHR ''='' part) of
           Inl e \<Rightarrow> Inl e
         | Inr (k, v) \<Rightarrow>
             (let k = strip k; v = strip v in
              if k \<noteq> [] \<and> v \<noteq> [] then parse_cookies_loop parts (dict_set seen k v)
              else parse_cookies_loop parts seen))
      else parse_cookies_loop parts seen)"

text \<open>The result lists one \<open>{"name": key, "value": value}\<close> per item of \<open>seen\<close>, here the
  pair of the name and the value.\<close>

definition parse_cookies :: "string \<Rightarrow> py_error + py_dict" where
  "parse_cookies cookie_str =
     (if cookie_str = [] then Inr []
      else parse_cookies_loop (split_char CHR '';'' cookie_str) [])"

subsection \<open>\<open>scripts/Billing-Kerit_renew.py\<close>: \<open>save_cookies_for_update\<close>\<close>

text \<open>The cookies of the browser are given as the pairs
  \<open>(cookie.get("name", ""), cookie.get("value", ""))\<close>; \<open>None\<close> stands for
  \<open>sb.driver.get_cookies()\<close> raising, which the function catches.\<close>

fun important_cookies :: "(string \<times> string) list \<Rightarrow> py_dict \<Rightarrow> py_dict" where
  "important_cookies [] acc = acc"
| "important_cookies ((name, v) # cookies) acc =
     (if name \<in> set [''session_id'', ''cf_clearance'']
      then important_cookies cookies (dict_set acc name v)
      else important_cookies cookies acc)"

definition serialize_cookies :: "py_dict \<Rightarrow> string" where
  "serialize_cookies d = join ''; '' (map (\<lambda>(k, v). k @ ''='' @ v) d)"

definition save_cookies_for_update :: "(string \<times> string) list option \<Rightarrow> string option" where
  "save_cookies_for_update browser_cookies =
     (case browser_cookies of
        None \<Rightarrow> None
      | Some cookies \<Rightarrow>
          (let important = important_cookies cookies [] in
           if important \<noteq> [] then Some (serialize_cookies important) else None))"

subsection \<open>\<open>scripts/panel-na1_renew.py\<close>: \<open>parse_cookie_string\<close>\<close>

record pw_cookie =
  c_name :: string
  c_value :: string
  c_domain :: string
  c_path :: string
  c_secure :: bool
  c_httpOnly :: bool
  c_sameSite :: string

text \<open>\<open>urllib.parse.unquote\<close> is a parameter: \<open>unquote v = None\<close> stands for a call
  that raises, after which the script keeps the value as it was.\<close>

fun parse_cookie_string_loop ::
  "(string \<Rightarrow> string option) \<Rightarrow> string \<Rightarrow> string list \<Rightarrow> pw_cookie list
     \<Rightarrow> py_error + pw_cookie list" where
  "parse_cookie_string_loop unquote domain [] cookies = Inr cookies"
| "parse_cookie_string_loop unquote domain (item # items) cookies =
     (let item = strip item in
      if item = [] \<or> \<not> py_in ''='' item then parse_cookie_string_loop unquote domain items cookies
      else
        (case py_index CHR ''='' item of
           Inl e \<Rightarrow> Inl e
         | Inr eq_index \<Rightarrow>
             (let name = strip (take eq_index item);
                  v = strip (drop (eq_index + 1) item);
                  v = (case unquote v of Some u \<Rightarrow> u | None \<Rightarrow> v)
              in parse_cookie_string_loop unquote domain items
                   (cookies @ [\<lparr>c_name = name, c_value = v, c_domain = domain, c_path = ''/'',
                                c_secure = True,
                                c_httpOnly = (py_in ''session'' (lower name)
                                              \<or> py_in ''remember'' (lower name)),
                                c_sameSite = ''Lax''\<rparr>]))))"

definition parse_cookie_string ::
  "(string \<Rightarrow> string option) \<Rightarrow> string \<Rightarrow> string \<Rightarrow> py_error + pw_cookie list" where
  "parse_cookie_string unquote cookie_str domain =
     (if cookie_str = [] then Inr []
      else parse_cookie_string_loop unquote domain (split_char CHR '';'' cookie_str) [])"

subsection \<open>Segments of a credential string\<close>

text \<open>The segments of a credential string are its pieces between semicolons, each
  stripped. A segment is well formed when it has an equals sign with a name before the
  first one and a value after it, neither of them blank.\<close>

definition segments :: "string \<Rightarrow> string list" where
  "segments s = map strip (split_char CHR '';'' s)"

definition seg_name :: "string \<Rightarrow> string" where
  "seg_name seg = strip (takeWhile (\<lambda>c. c \<noteq> CHR ''='') seg)"

definition seg_value :: "string \<Rightarrow> string" where
  "seg_value seg = strip (drop 1 (dropWhile (\<lambda>c. c \<noteq> CHR ''='') seg))"

definition has_eq :: "string \<Rightarrow> bool" where
  "has_eq seg = (CHR ''='' \<in> set seg)"

definition well_formed :: "string \<Rightarrow> bool" where
  "well_formed seg = (has_eq seg \<and> seg_name seg \<noteq> [] \<and> seg_value seg \<noteq> [])"

text \<open>The name and the value that \<open>parse_cookies\<close> reads from one piece, kept in the
  dictionary when the piece is well formed.\<close>

definition cookie_step :: "string \<Rightarrow> py_dict \<Rightarrow> py_dict" where
  "cookie_step part seen =
     (if well_formed (strip part) then dict_set seen (seg_name (strip part)) (seg_value (strip part)) else seen)"

text \<open>The pairs of the well-formed segments, in the order of the string, and the value
  of the last pair of a name.\<close>

definition wf_pairs :: "string \<Rightarrow> (string \<times> string) list" where
  "wf_pairs s = map (\<lambda>seg. (seg_name seg, seg_value seg)) (filter well_formed (segments s))"

fun last_value :: "string \<Rightarrow> (string \<times> string) list \<Rightarrow> string option" where
  "last_value k [] = None"
| "last_value k ((k', v) # ps) =
     (case last_value k ps of Some w \<Rightarrow> Some w | None \<Rightarrow> if k' = k then Some v else None)"

text \<open>What \<open>parse_cookie_string\<close> does with a value (\<open>unquote\<close>, or the value as it was
  when \<open>unquote\<close> raises), and the cookie it builds from a segment.\<close>

definition unq :: "(string \<Rightarrow> string option) \<Rightarrow> string \<Rightarrow> string" where
  "unq unquote v = (case unquote v of Some u \<Rightarrow> u | None \<Rightarrow> v)"

definition the_cookie :: "(string \<Rightarrow> string option) \<Rightarrow> string \<Rightarrow> string \<Rightarrow> pw_cookie" where
  "the_cookie unquote domain seg =
     \<lparr>c_name = seg_name seg, c_value = unq unquote (seg_value seg), c_domain = domain,
      c_path = ''/'', c_secure = True,
      c_httpOnly = (py_in ''session'' (lower (seg_name seg)) \<or> py_in ''remember'' (lower (seg_name seg))),
      c_sameSite = ''Lax''\<rparr>"

text \<open>A value that survives a round trip: not empty, no semicolon, no white space at
  either end.\<close>

definition clean_value :: "string \<Rightarrow> bool" where
  "clean_value v = (v \<noteq> [] \<and> CHR '';'' \<notin> set v \<and> lstrip v = v \<and> rstrip v = v)"

section \<open>Outcome classifier\<close>

subsection \<open>\<open>scripts/Billing-Kerit_renew.py\<close>: \<open>check_renewal_result\<close>\<close>

text \<open>\<open>str(n)\<close> for an integer, as in \<open>f"HTTP {status_code}"\<close>.\<close>

fun digits :: "nat \<Rightarrow> string" where
  "digits n =
     (if n < 10 then [char_of (48 + n)]
      else digits (n div 10) @ [char_of (48 + n mod 10)])"

definition str_int :: "int \<Rightarrow> string" where
  "str_int i = (if i < 0 then CHR ''-'' # digits (nat (- i)) else digits (nat i))"

text \<open>The status of a result: \<open>"success"\<close>, \<open>"limit_reached"\<close>, \<open>"error"\<close>,
  \<open>"unknown"\<close>.\<close>

datatype outcome = St_success | St_limit_reached | St_error | St_unknown

text \<open>What stands under \<open>"message"\<close> in a JSON body: a text, or a value of another type
  (\<open>null\<close>, a number, a list, an object), of which the script uses the truth value only.\<close>

datatype message = Text string | Non_text bool

text \<open>The \<open>data\<close> of a captured response: a JSON object with or without a \<open>"message"\<close>
  (the interception shim stores no \<open>data\<close> when the body is not JSON, and the script
  reads \<open>{}\<close> then), or a JSON value that is not an object, given by its \<open>str\<close>.\<close>

datatype response_data = Dict_data "message option" | Other_data string

record api_response =
  r_status :: int
  r_ok :: bool
  r_data :: response_data

record renewal_result =
  res_status :: outcome
  res_message :: message
  res_api_status :: "int option"

text \<open>\<open>data.get("message", "") if isinstance(data, dict) else str(data)\<close>.\<close>

definition message_of :: "response_data \<Rightarrow> message" where
  "message_of d =
     (case d of
        Dict_data None \<Rightarrow> Text []
      | Dict_data (Some m) \<Rightarrow> m
      | Other_data s \<Rightarrow> Text s)"

text \<open>\<open>message.lower()\<close>: a value that is not a text has no such method.\<close>

definition message_lower :: "message \<Rightarrow> py_error + string" where
  "message_lower m = (case m of Text s \<Rightarrow> Inr (lower s) | Non_text t \<Rightarrow> Inl AttributeError)"

text \<open>\<open>message or default\<close>.\<close>

definition message_or :: "message \<Rightarrow> string \<Rightarrow> message" where
  "message_or m d =
     (case m of
        Text s \<Rightarrow> if s = [] then Text d else Text s
      | Non_text t \<Rightarrow> if t then Non_text t else Text d)"

text \<open>The literals \<open>"\<dots>"\<close> of the script in UTF-8: U+7EED U+8BA2 U+6210 U+529F
  (renewal succeeded) and U+8BF7 U+6C42 U+9519 U+8BEF (bad request).\<close>

definition txt_renewed :: string where
  "txt_renewed = [CHR 0xE7, CHR 0xBB, CHR 0xAD, CHR 0xE8, CHR 0xAE, CHR 0xA2,
                  CHR 0xE6, CHR 0x88, CHR 0x90, CHR 0xE5, CHR 0x8A, CHR 0x9F]"

definition txt_bad_request :: string where
  "txt_bad_request = [CHR 0xE8, CHR 0xAF, CHR 0xB7, CHR 0xE6, CHR 0xB1, CHR 0x82,
                      CHR 0xE9, CHR 0x94, CHR 0x99, CHR 0xE8, CHR 0xAF, CHR 0xAF]"

text \<open>How the first tier ends: with a \<open>return\<close>, by running out of responses, or by an
  exception that the \<open>except\<close> of the tier catches; the last two go on to the second
  tier with the result as the loop left it.\<close>

datatype tier_exit = Return renewal_result | Exhausted renewal_result | Caught py_error renewal_result

text \<open>\<open>for resp in reversed(api_responses)\<close>; the list is given reversed.\<close>

fun api_tier :: "api_response list \<Rightarrow> renewal_result \<Rightarrow> tier_exit" where
  "api_tier [] result = Exhausted result"
| "api_tier (resp # rest) result =
     (let status_code = r_status resp;
          m = message_of (r_data resp);
          result = result\<lparr>res_api_status := Some status_code\<rparr>
      in if status_code = 200 \<and> r_ok resp then
           Return (result\<lparr>res_status := St_success, res_message := message_or m txt_renewed\<rparr>)
         else if status_code = 400 then
           (case message_lower m of
              Inl e \<Rightarrow> Caught e result
            | Inr low \<Rightarrow>
                if py_in ''cannot exceed 7 days'' low \<or> py_in ''exceed'' low then
                  Return (result\<lparr>res_status := St_limit_reached, res_message := m\<rparr>)
                else
                  Return (result\<lparr>res_status := St_error,
                                 res_message := message_or m txt_bad_request\<rparr>))
         else if status_code \<ge> 400 then
           Return (result\<lparr>res_status := St_error,
                          res_message := message_or m (''HTTP '' @ str_int status_code)\<rparr>)
         else api_tier rest result)"

text \<open>The script that reads the page: the text of the body, then the toasts (their
  text, trimmed) in document order. \<open>None\<close> is the \<open>null\<close> of JavaScript.\<close>

fun toast_scan :: "string list \<Rightarrow> string option" where
  "toast_scan [] = None"
| "toast_scan (t # toasts) =
     (if py_in ''Cannot exceed'' t \<or> py_in ''exceed 7 days'' t then Some t
      else if py_in ''success'' t \<and> py_in ''renew'' t then Some ''SUCCESS''
      else toast_scan toasts)"

definition page_script :: "string \<Rightarrow> string list \<Rightarrow> string option" where
  "page_script bodyText toasts =
     (if py_in ''Cannot exceed 7 days'' bodyText then Some ''Cannot exceed 7 days validity''
      else if py_in ''limit reached'' bodyText \<or> py_in ''weekly limit'' bodyText
        then Some ''Weekly limit reached''
      else if py_in ''renewed successfully'' bodyText \<or> py_in ''Renewal successful'' bodyText
        then Some ''SUCCESS''
      else toast_scan toasts)"

text \<open>The second tier. The page is the text of the body with the texts of the toasts;
  \<open>None\<close> stands for \<open>sb.execute_script\<close> raising, which the tier catches.\<close>

definition dom_tier :: "(string \<times> string list) option \<Rightarrow> renewal_result \<Rightarrow> renewal_result" where
  "dom_tier page result =
     (case page of
        None \<Rightarrow> result
      | Some (bodyText, toasts) \<Rightarrow>
          (case page_script bodyText toasts of
             None \<Rightarrow> result
           | Some page_error \<Rightarrow>
               if page_error = [] then result
               else if page_error = ''SUCCESS'' then
                 result\<lparr>res_status := St_success, res_message := Text txt_renewed\<rparr>
               else if py_in ''exceed'' (lower page_error) \<or> py_in ''limit'' (lower page_error) then
                 result\<lparr>res_status := St_limit_reached, res_message := Text page_error\<rparr>
               else result))"

definition check_renewal_result ::
  "api_response list \<Rightarrow> (string \<times> string list) option \<Rightarrow> renewal_result" where
  "check_renewal_result api_responses page =
     (case api_tier (rev api_responses)
             \<lparr>res_status = St_unknown, res_message = Text [], res_api_status = None\<rparr> of
        Return result \<Rightarrow> result
      | Exhausted result \<Rightarrow> dom_tier page result
      | Caught e result \<Rightarrow> dom_tier page result)"

text \<open>The success patterns of the renewal classifier: a captured response with status
  200 and the \<open>ok\<close> flag, or a success phrase in the text of the page or of a toast.\<close>

definition api_success :: "api_response \<Rightarrow> bool" where
  "api_success resp = (r_status resp = 200 \<and> r_ok resp)"

definition page_success :: "(string \<times> string list) option \<Rightarrow> bool" where
  "page_success page =
     (case page of
        None \<Rightarrow> False
      | Some (bodyText, toasts) \<Rightarrow>
          py_in ''renewed successfully'' bodyText \<or> py_in ''Renewal successful'' bodyText
          \<or> list_ex (\<lambda>t. py_in ''success'' t \<and> py_in ''renew'' t) toasts)"

text \<open>The structured-response mapping, in the words of the specification: status 200
  with the \<open>ok\<close> flag is a success; status 400 with a message that holds \<open>exceed\<close> is
  the limit; any other status from 400 on is an error. A response outside these cases
  decides nothing.\<close>

definition decides :: "api_response \<Rightarrow> bool" where
  "decides resp = ((r_status resp = 200 \<and> r_ok resp) \<or> r_status resp \<ge> 400)"

definition mapped_status :: "api_response \<Rightarrow> outcome" where
  "mapped_status resp =
     (if r_status resp = 200 \<and> r_ok resp then St_success
      else if r_status resp = 400
              \<and> (case message_of (r_data resp) of
                    Text s \<Rightarrow> py_in ''exceed'' (lower s)
                  | Non_text t \<Rightarrow> False)
        then St_limit_reached
      else St_error)"

definition text_message :: "api_response \<Rightarrow> bool" where
  "text_message resp = (case message_of (r_data resp) of Text s \<Rightarrow> True | Non_text t \<Rightarrow> False)"

subsection \<open>\<open>nodeloc/checkin.py\<close>: \<open>_get_checkin_result\<close>\<close>

text \<open>\<open>s.replace(old, new)\<close>: the occurrences of \<open>old\<close> from the left, not overlapping;
  for an empty \<open>old\<close>, \<open>new\<close> before every character and at the end.\<close>

function replace_from :: "string \<Rightarrow> string \<Rightarrow> string \<Rightarrow> string" where
  "replace_from old new [] = []"
| "replace_from old new (c # cs) =
     (if old \<noteq> [] \<and> prefix old (c # cs)
      then new @ replace_from old new (drop (length old) (c # cs))
      else c # replace_from old new cs)"
  by pat_completeness auto
termination
  by (relation "measure (\<lambda>(old, new, s). length s)") (auto simp: neq_Nil_conv)

definition py_replace :: "string \<Rightarrow> string \<Rightarrow> string \<Rightarrow> string" where
  "py_replace old new s =
     (if old = [] then new @ concat (map (\<lambda>c. c # new) s) else replace_from old new s)"

text \<open>The literals of the script in UTF-8. The multiplication sign U+00D7; the phrases
  U+7B7E U+5230 U+6210 U+529F (checked in), U+5DF2 U+7ECF U+7B7E U+5230 and
  U+5DF2 U+7B7E U+5230 (already checked in), U+5DF2 U+8FDE U+7EED U+7B7E U+5230 (checked in
  on consecutive days); the texts U+4ECA U+65E5 U+5DF2 U+7B7E U+5230 (already checked in
  today) and U+7B7E U+5230 U+72B6 U+6001 U+672A U+77E5 (state unknown); the tags, a bracketed
  U+1F389, U+23ED U+FE0F, U+26A0 U+FE0F and U+2753.\<close>

definition txt_cross :: string where
  "txt_cross = [CHR 0xC3, CHR 0x97]"

definition txt_checked_in :: string where
  "txt_checked_in = [CHR 0xE7, CHR 0xAD, CHR 0xBE, CHR 0xE5, CHR 0x88, CHR 0xB0,
                     CHR 0xE6, CHR 0x88, CHR 0x90, CHR 0xE5, CHR 0x8A, CHR 0x9F]"

definition txt_already_a :: string where
  "txt_already_a = [CHR 0xE5, CHR 0xB7, CHR 0xB2, CHR 0xE7, CHR 0xBB, CHR 0x8F,
                    CHR 0xE7, CHR 0xAD, CHR 0xBE, CHR 0xE5, CHR 0x88, CHR 0xB0]"

definition txt_already_b :: string where
  "txt_already_b = [CHR 0xE5, CHR 0xB7, CHR 0xB2, CHR 0xE7, CHR 0xAD, CHR 0xBE,
                    CHR 0xE5, CHR 0x88, CHR 0xB0]"

definition txt_consecutive :: string where
  "txt_consecutive = [CHR 0xE5, CHR 0xB7, CHR 0xB2, CHR 0xE8, CHR 0xBF, CHR 0x9E,
                      CHR 0xE7, CHR 0xBB, CHR 0xAD, CHR 0xE7, CHR 0xAD, CHR 0xBE,
                      CHR 0xE5, CHR 0x88, CHR 0xB0]"

definition txt_today :: string where
  "txt_today = [CHR 0xE4, CHR 0xBB, CHR 0x8A, CHR 0xE6, CHR 0x97, CHR 0xA5,
                CHR 0xE5, CHR 0xB7, CHR 0xB2, CHR 0xE7, CHR 0xAD, CHR 0xBE,
                CHR 0xE5, CHR 0x88, CHR 0xB0]"

definition txt_state_unknown :: string where
  "txt_state_unknown = [CHR 0xE7, CHR 0xAD, CHR 0xBE, CHR 0xE5, CHR 0x88, CHR 0xB0,
                        CHR 0xE7, CHR 0x8A, CHR 0xB6, CHR 0xE6, CHR 0x80, CHR 0x81,
                        CHR 0xE6, CHR 0x9C, CHR 0xAA, CHR 0xE7, CHR 0x9F, CHR 0xA5]"

definition tag_success :: string where
  "tag_success = [CHR ''['', CHR 0xF0, CHR 0x9F, CHR 0x8E, CHR 0x89, CHR '']'']"

definition tag_skipped :: string where
  "tag_skipped = [CHR ''['', CHR 0xE2, CHR 0x8F, CHR 0xAD, CHR 0xEF, CHR 0xB8, CHR 0x8F, CHR '']'']"

definition tag_warning :: string where
  "tag_warning = [CHR ''['', CHR 0xE2, CHR 0x9A, CHR 0xA0, CHR 0xEF, CHR 0xB8, CHR 0x8F, CHR '']'']"

definition tag_unknown :: string where
  "tag_unknown = [CHR ''['', CHR 0xE2, CHR 0x9D, CHR 0x93, CHR '']'']"

definition alert_selectors :: "string list" where
  "alert_selectors =
     [''.discourse-checkin-notification'', ''.alert-success'', ''.bootbox-body'',
      ''.fancybox-content'', ''.dialog-body'', ''.popup-tip'', ''.notification'']"

text \<open>What waiting for a selector gives: a \<open>TimeoutException\<close>, which the loop catches,
  an element with its text, or another exception of the driver (from the wait or from
  reading the text), which the function lets through.\<close>

datatype popup = Wait_timeout | Popup_text string | Driver_raises

text \<open>\<open>for sel in alert_selectors\<close>: \<open>Inr (Some r)\<close> is \<open>return r\<close>, \<open>Inr None\<close> the end of
  the loop.\<close>

fun popup_loop :: "(string \<Rightarrow> popup) \<Rightarrow> string \<Rightarrow> string list \<Rightarrow> py_error + string option" where
  "popup_loop popup_of display_name [] = Inr None"
| "popup_loop popup_of display_name (sel # sels) =
     (case popup_of sel of
        Wait_timeout \<Rightarrow> popup_loop popup_of display_name sels
      | Driver_raises \<Rightarrow> Inl BrowserError
      | Popup_text raw \<Rightarrow>
          (let txt = strip (py_replace txt_cross [] raw) in
           if txt \<noteq> [] then
             (if py_in txt_checked_in txt then
                Inr (Some (tag_success @ '' '' @ display_name @ '' '' @ txt))
              else if py_in txt_already_a txt \<or> py_in txt_already_b txt then
                Inr (Some (tag_skipped @ '' '' @ display_name @ '' '' @ txt_today))
              else Inr (Some (tag_warning @ '' '' @ display_name @ '' '' @ txt)))
           else popup_loop popup_of display_name sels))"

text \<open>\<open>_get_checkin_result\<close> (a name of Isabelle begins with a letter). \<open>page_source\<close> is
  the source of the page, \<open>None\<close> when reading it raises.\<close>

definition get_checkin_result ::
  "(string \<Rightarrow> popup) \<Rightarrow> string option \<Rightarrow> string \<Rightarrow> py_error + string" where
  "get_checkin_result popup_of page_source display_name =
     (case popup_loop popup_of display_name alert_selectors of
        Inl e \<Rightarrow> Inl e
      | Inr (Some r) \<Rightarrow> Inr r
      | Inr None \<Rightarrow>
          (case page_source of
             None \<Rightarrow> Inl BrowserError
           | Some page \<Rightarrow>
               if py_in txt_checked_in page then
                 Inr (tag_success @ '' '' @ display_name @ '' '' @ txt_checked_in)
               else if py_in txt_consecutive page \<or> py_in txt_already_b page then
                 Inr (tag_skipped @ '' '' @ display_name @ '' '' @ txt_today)
               else Inr (tag_unknown @ '' '' @ display_name @ '' '' @ txt_state_unknown)))"

text \<open>The success pattern of the check-in classifier: the phrase for a check-in in the
  cleaned text of a popup, or in the source of the page.\<close>

definition popup_success :: "(string \<Rightarrow> popup) \<Rightarrow> bool" where
  "popup_success popup_of =
     list_ex (\<lambda>sel. case popup_of sel of
                       Popup_text raw \<Rightarrow> py_in txt_checked_in (strip (py_replace txt_cross [] raw))
                     | _ \<Rightarrow> False) alert_selectors"

definition source_success :: "string option \<Rightarrow> bool" where
  "source_success page_source =
     (case page_source of None \<Rightarrow> False | Some page \<Rightarrow> py_in txt_checked_in page)"

section \<open>Challenge handler\<close>

subsection \<open>\<open>scripts/Billing-Kerit_renew.py\<close>: \<open>handle_turnstile\<close>\<close>

text \<open>What the page answers in one attempt. Each script either returns or raises
  (\<open>None\<close>, or \<open>click_ok = False\<close> for the click); every raise is caught by the
  \<open>except\<close> of the attempt. \<open>has_turnstile\<close> is the detection of a challenge marker,
  \<open>is_checked\<close> the check for an internal marker that the challenge has passed, \<open>recheck\<close>
  the truth value of the script that runs after the click (it looks for an input named
  \<open>cf-turnance-response\<close>).\<close>

record attempt_obs =
  has_turnstile :: "bool option"
  is_checked :: "bool option"
  click_ok :: bool
  recheck :: "bool option"

record turnstile_run =
  passed :: bool
  detections :: nat
  interactions :: nat

text \<open>\<open>for attempt in range(max_attempts)\<close>, with the \<open>return False\<close> that follows it.\<close>

fun turnstile_loop :: "(nat \<Rightarrow> attempt_obs) \<Rightarrow> nat list \<Rightarrow> turnstile_run \<Rightarrow> turnstile_run" where
  "turnstile_loop obs [] run = run\<lparr>passed := False\<rparr>"
| "turnstile_loop obs (attempt # attempts) run =
     (let ob = obs attempt;
          run = run\<lparr>detections := detections run + 1\<rparr>
      in case has_turnstile ob of
           None \<Rightarrow> turnstile_loop obs attempts run
         | Some False \<Rightarrow> run\<lparr>passed := True\<rparr>
         | Some True \<Rightarrow>
             (case is_checked ob of
                None \<Rightarrow> turnstile_loop obs attempts run
              | Some True \<Rightarrow> run\<lparr>passed := True\<rparr>
              | Some False \<Rightarrow>
                  (let run = run\<lparr>interactions := interactions run + 1\<rparr>
                   in if \<not> click_ok ob then turnstile_loop obs attempts run
                      else (case recheck ob of
                              None \<Rightarrow> turnstile_loop obs attempts run
                            | Some True \<Rightarrow> run\<lparr>passed := True\<rparr>
                            | Some False \<Rightarrow> turnstile_loop obs attempts run))))"

definition handle_turnstile :: "(nat \<Rightarrow> attempt_obs) \<Rightarrow> int \<Rightarrow> turnstile_run" where
  "handle_turnstile obs max_attempts =
     turnstile_loop obs [0..<nat max_attempts] \<lparr>passed = False, detections = 0, interactions = 0\<rparr>"

text \<open>An attempt confirms when it finds no challenge, or finds one that has passed,
  before or after its click.\<close>

definition confirms :: "attempt_obs \<Rightarrow> bool" where
  "confirms ob =
     (has_turnstile ob = Some False
      \<or> (has_turnstile ob = Some True
          \<and> (is_checked ob = Some True
              \<or> (is_checked ob = Some False \<and> click_ok ob \<and> recheck ob = Some True))))"

section \<open>Session establisher and action loop\<close>

subsection \<open>\<open>scripts/Billing-Kerit_renew.py\<close>: \<open>check_login_status\<close>\<close>

record login_page =
  has_logout_link :: bool
  has_free_panel_link :: bool
  body_text :: string

text \<open>The script of \<open>check_login_status\<close>: \<open>true\<close>, \<open>false\<close> or \<open>null\<close>.\<close>

definition login_script :: "login_page \<Rightarrow> bool option" where
  "login_script pg =
     (if has_logout_link pg then Some True
      else if has_free_panel_link pg then Some True
      else if py_in ''Free Plans'' (body_text pg) \<or> py_in ''Dashboard'' (body_text pg)
        then Some True
      else if py_in ''Please log in'' (body_text pg) \<or> py_in ''Sign in'' (body_text pg)
        then Some False
      else None)"

text \<open>The view of the session page: \<open>None\<close> when reading the URL raises, else the URL
  with the page, \<open>None\<close> for the page when the script raises. Both raises are caught and
  give \<open>False\<close>.\<close>

definition check_login_status :: "(string \<times> login_page option) option \<Rightarrow> bool" where
  "check_login_status view =
     (case view of
        None \<Rightarrow> False
      | Some (current_url, page) \<Rightarrow>
          if py_in ''/login'' current_url \<or> py_in ''/register'' current_url then False
          else (case page of
                  None \<Rightarrow> False
                | Some pg \<Rightarrow>
                    (case login_script pg of
                       Some True \<Rightarrow> True
                     | Some False \<Rightarrow> False
                     | None \<Rightarrow> py_in ''/free_panel'' current_url \<or> py_in ''/session'' current_url)))"

subsection \<open>\<open>scripts/Billing-Kerit_renew.py\<close>: the renewal loop of \<open>main\<close>\<close>

text \<open>The notifications of \<open>main\<close>, by their titles: a page error (with the error and
  the place), access blocked, login failed, access to the panel failed, check done,
  renewal done, renewal not done, an exception while the browser runs, a failure to
  start.\<close>

datatype notice =
    Page_error string string
  | Access_blocked
  | Login_failed
  | Access_failed
  | Check_done
  | Renew_done
  | Renew_not_done
  | Exec_exception
  | Start_failed

text \<open>What a run does that the claims speak of: a call of \<open>notify_telegram\<close> with its
  success flag, the injection of the session cookie, and the stages of a renewal round
  (the click on \<open>renewServerBtn\<close> that triggers the renewal, the handling of the
  challenge in the modal, the click on the advertisement, the click on \<open>renewBtn\<close> or
  the submission of the form, which make the renewal request, the closing of the modal),
  and the update of the stored secret.\<close>

datatype event =
    Notify bool notice
  | Inject_session_cookie
  | Click_renew_server_btn nat
  | Modal_challenge nat
  | Click_ad nat
  | Click_renew_btn nat
  | Submit_form nat
  | Close_modal nat
  | Update_secret string

text \<open>Where a call to the browser in a round can raise: the check of the button, the
  trigger click, the check of the modal, the steps up to the final click, the check for
  the limit text, the reset (closing the modal, refreshing, reading the counters).\<close>

datatype round_stage =
  At_button_check | At_trigger | At_modal_check | At_confirm | At_limit_check | At_reset

text \<open>The remaining days read after a round: the marker for "unknown" (then the script
  takes 0), a text whose first word \<open>int\<close> reads, or a text at which \<open>int\<close> or the
  indexing raises (the round catches it).\<close>

datatype days_reading = Days_unknown | Days_parsed int | Days_unreadable

record round_obs =
  raises_at :: "round_stage option"
  btn_disabled :: bool
  modal_visible :: bool
  renew_btn_usable :: bool
  limit_reached :: bool
  current_days :: days_reading

datatype stop_reason = Button_disabled | Limit_text | Days_cap | Max_rounds | Crashed

record loop_state =
  total_renewed :: nat
  rounds_run :: nat
  trace :: "event list"

definition max_renewals :: nat where
  "max_renewals = 7"

text \<open>The body of the loop for one round: \<open>Some\<close> reason when the round leaves the loop
  (a \<open>break\<close>, or an exception, which ends the run), \<open>None\<close> when the next round follows
  (after \<open>continue\<close> or at the end of the body).\<close>

definition round_body :: "nat \<Rightarrow> round_obs \<Rightarrow> loop_state \<Rightarrow> stop_reason option \<times> loop_state" where
  "round_body renewal_round ob st0 =
     (let st = st0\<lparr>rounds_run := rounds_run st0 + 1\<rparr>
      in if raises_at ob = Some At_button_check then (Some Crashed, st)
         else if btn_disabled ob then (Some Button_disabled, st)
         else
           (let st = st\<lparr>trace := trace st @ [Click_renew_server_btn renewal_round]\<rparr>
            in if raises_at ob = Some At_trigger \<or> raises_at ob = Some At_modal_check
                 then (Some Crashed, st)
               else if \<not> modal_visible ob then (None, st)
               else
                 (let st = st\<lparr>trace := trace st @ [Modal_challenge renewal_round,
                                                        Click_ad renewal_round]\<rparr>
                  in if raises_at ob = Some At_confirm then (Some Crashed, st)
                     else
                       (let st = st\<lparr>trace := trace st @
                                   [if renew_btn_usable ob then Click_renew_btn renewal_round
                                    else Submit_form renewal_round]\<rparr>
                        in if raises_at ob = Some At_limit_check then (Some Crashed, st)
                           else if limit_reached ob then (Some Limit_text, st)
                           else
                             (let st = st\<lparr>total_renewed := total_renewed st + 1,
                                             trace := trace st @ [Close_modal renewal_round]\<rparr>
                              in if raises_at ob = Some At_reset then (Some Crashed, st)
                                 else (case current_days ob of
                                         Days_parsed days_num \<Rightarrow>
                                           if days_num \<ge> 7 then (Some Days_cap, st)
                                           else (None, st)
                                       | Days_unknown \<Rightarrow> (None, st)
                                       | Days_unreadable \<Rightarrow> (None, st)))))))"

text \<open>\<open>for renewal_round in range(1, max_renewals + 1)\<close>: the loop ends on the bound when
  no round leaves it.\<close>

fun renewal_loop :: "(nat \<Rightarrow> round_obs) \<Rightarrow> nat list \<Rightarrow> loop_state \<Rightarrow> stop_reason \<times> loop_state" where
  "renewal_loop obs [] st = (Max_rounds, st)"
| "renewal_loop obs (renewal_round # rounds) st =
     (case round_body renewal_round (obs renewal_round) st of
        (Some stop, st') \<Rightarrow> (stop, st')
      | (None, st') \<Rightarrow> renewal_loop obs rounds st')"


fun loop_stage :: "event \<Rightarrow> bool" where
  "loop_stage (Click_renew_server_btn n) = True"
| "loop_stage (Modal_challenge n) = True"
| "loop_stage (Click_ad n) = True"
| "loop_stage (Click_renew_btn n) = True"
| "loop_stage (Submit_form n) = True"
| "loop_stage (Close_modal n) = True"
| "loop_stage _ = False"


subsection \<open>\<open>scripts/Billing-Kerit_renew.py\<close>: \<open>main\<close>\<close>

text \<open>Where a call to the browser that \<open>main\<close> makes outside the loop and outside the
  helpers can raise: starting the browser, the first visit, the session page, the panel,
  its second try, reading the status, reading the final state.\<close>

datatype main_stage =
  At_start | At_first_visit | At_session | At_free_panel | At_retry | At_status | At_final

text \<open>The environment of a run: the credential string, the stage at which a call
  raises if one does, and what the pages show. A page error is the result of
  \<open>check_page_error\<close>, a blocked flag that of \<open>check_access_blocked\<close>.\<close>

record run_env =
  cookies_str :: string
  crash_stage :: "main_stage option"
  first_page_error :: "string option"
  first_blocked :: bool
  session_page_error :: "string option"
  login_view :: "(string \<times> login_page option) option"
  panel_url :: string
  panel_page_error :: "string option"
  retry_url :: string
  retry_page_error :: "string option"
  panel_blocked :: bool
  renew_button_disabled :: bool
  rounds :: "nat \<Rightarrow> round_obs"
  final_cookies :: "(string \<times> string) list option"

record run =
  exit_code :: int
  events :: "event list"

text \<open>\<open>if page_error:\<close> for an optional string.\<close>

definition truthy :: "string option \<Rightarrow> bool" where
  "truthy e = (case e of None \<Rightarrow> False | Some s \<Rightarrow> s \<noteq> [])"

text \<open>The handler of an exception while the browser runs: a notification, then
  \<open>sys.exit(1)\<close>.\<close>

definition crash :: "event list \<Rightarrow> run" where
  "crash evs = \<lparr>exit_code = 1, events = evs @ [Notify False Exec_exception]\<rparr>"

text \<open>\<open>new_cookie_str = save_cookies_for_update(sb)\<close> and the update of the secret when
  there is a string.\<close>

definition save_step :: "(string \<times> string) list option \<Rightarrow> event list" where
  "save_step browser_cookies =
     (case save_cookies_for_update browser_cookies of
        None \<Rightarrow> []
      | Some new_cookie_str \<Rightarrow> if new_cookie_str \<noteq> [] then [Update_secret new_cookie_str] else [])"

text \<open>The loop and the report that follows it.\<close>

definition renew_stage :: "run_env \<Rightarrow> event list \<Rightarrow> run" where
  "renew_stage env evs =
     (case renewal_loop (rounds env) [1..<max_renewals + 1]
             \<lparr>total_renewed = 0, rounds_run = 0, trace = []\<rparr> of
        (Crashed, st) \<Rightarrow> crash (evs @ trace st)
      | (stop, st) \<Rightarrow>
          if crash_stage env = Some At_final then crash (evs @ trace st)
          else \<lparr>exit_code = 0,
                events = evs @ trace st
                  @ [if total_renewed st > 0 then Notify True Renew_done
                     else Notify False Renew_not_done]
                  @ save_step (final_cookies env)\<rparr>)"

text \<open>The panel page and what follows.\<close>

definition panel_stage :: "run_env \<Rightarrow> event list \<Rightarrow> run" where
  "panel_stage env evs =
     (if crash_stage env = Some At_free_panel then crash evs
      else if truthy (panel_page_error env) then
        \<lparr>exit_code = 1,
         events = evs @ [Notify False (Page_error (the (panel_page_error env)) ''Free Plans'')]\<rparr>
      else if \<not> py_in ''/free_panel'' (panel_url env)
              \<and> crash_stage env = Some At_retry then crash evs
      else if \<not> py_in ''/free_panel'' (panel_url env)
              \<and> (truthy (retry_page_error env) \<or> \<not> py_in ''/free_panel'' (retry_url env)) then
        \<lparr>exit_code = 1,
         events = evs @ [Notify False
                          (if truthy (retry_page_error env)
                           then Page_error (the (retry_page_error env)) ''Free Plans retry''
                           else Access_failed)]\<rparr>
      else if panel_blocked env then
        \<lparr>exit_code = 1, events = evs @ [Notify False Access_blocked]\<rparr>
      else if crash_stage env = Some At_status then crash evs
      else if renew_button_disabled env then
        \<lparr>exit_code = 0, events = evs @ save_step (final_cookies env) @ [Notify True Check_done]\<rparr>
      else renew_stage env evs)"

text \<open>\<open>main\<close>. An exception of \<open>parse_cookies\<close> would leave \<open>main\<close> before any handler
  is in place: the interpreter ends with status 1.\<close>

definition main :: "run_env \<Rightarrow> run" where
  "main env =
     (case parse_cookies (cookies_str env) of
        Inl e \<Rightarrow> \<lparr>exit_code = 1, events = []\<rparr>
      | Inr cookies \<Rightarrow>
          (let session_cookie = find (\<lambda>c. fst c = ''session_id'') cookies in
           if crash_stage env = Some At_start then
             \<lparr>exit_code = 1, events = [Notify False Start_failed]\<rparr>
           else if crash_stage env = Some At_first_visit then crash []
           else if truthy (first_page_error env) then
             \<lparr>exit_code = 1,
              events = [Notify False (Page_error (the (first_page_error env)) ''first visit'')]\<rparr>
           else if first_blocked env then
             \<lparr>exit_code = 1, events = [Notify False Access_blocked]\<rparr>
           else
             (let evs = (case session_cookie of None \<Rightarrow> [] | Some c \<Rightarrow> [Inject_session_cookie])
              in if crash_stage env = Some At_session then crash evs
                 else if truthy (session_page_error env) then
                   \<lparr>exit_code = 1,
                    events = evs @ [Notify False
                                     (Page_error (the (session_page_error env)) ''Session'')]\<rparr>
                 else if \<not> check_login_status (login_view env) then
                   \<lparr>exit_code = 1, events = evs @ [Notify False Login_failed]\<rparr>
                 else panel_stage env evs)))"

text \<open>A run reaches the verification of the login when nothing before it ends the
  run.\<close>

definition reaches_verify_login :: "run_env \<Rightarrow> bool" where
  "reaches_verify_login env =
     (crash_stage env \<notin> {Some At_start, Some At_first_visit, Some At_session}
      \<and> \<not> truthy (first_page_error env) \<and> \<not> first_blocked env
      \<and> \<not> truthy (session_page_error env))"


section \<open>Exit status\<close>

subsection \<open>\<open>scripts/panel-na1_renew.py\<close>: \<open>main\<close>\<close>

text \<open>What one server shows: an exception of a call in the \<open>try\<close> of its round (a
  timeout of Playwright or another exception), whether a restart button is found,
  whether it is disabled, whether, when it is, the start button is enabled and its click
  goes through (every exception there is swallowed), and whether the pause that follows
  the \<open>try\<close> (\<open>page.wait_for_timeout(2000)\<close>) raises.\<close>

datatype step_exn = No_exn | Timeout_exn | Other_exn

record server_obs =
  so_exn :: step_exn
  btn_found :: bool
  restart_disabled :: bool
  start_works :: bool
  pause_raises :: bool

text \<open>The line a server adds to the results: button not found, started, button
  disabled, restarted, timeout, failure.\<close>

datatype server_line = No_button | Started | Disabled | Restarted | Timed_out | Failed

text \<open>The \<open>try\<close> of one round of \<open>for idx, server in enumerate(servers)\<close>: the line, and
  whether it counts for \<open>success_count\<close> (else for \<open>fail_count\<close>).\<close>

definition process_server :: "server_obs \<Rightarrow> bool \<times> server_line" where
  "process_server ob =
     (case so_exn ob of
        Timeout_exn \<Rightarrow> (False, Timed_out)
      | Other_exn \<Rightarrow> (False, Failed)
      | No_exn \<Rightarrow>
          if \<not> btn_found ob then (False, No_button)
          else if restart_disabled ob then
            (if start_works ob then (True, Started) else (False, Disabled))
          else (True, Restarted))"

text \<open>The rounds that end with \<open>continue\<close> (no button, started, disabled) skip the pause;
  the others reach it.\<close>

definition reaches_pause :: "server_line \<Rightarrow> bool" where
  "reaches_pause line = (line \<in> set [Restarted, Timed_out, Failed])"

text \<open>The loop. An exception of the pause leaves it for the handler of \<open>main\<close>.\<close>

fun server_loop ::
  "server_obs list \<Rightarrow> nat \<times> nat \<times> server_line list \<Rightarrow> py_error + nat \<times> nat \<times> server_line list" where
  "server_loop [] acc = Inr acc"
| "server_loop (server # rest) (success_count, fail_count, results) =
     (case process_server server of
        (ok, line) \<Rightarrow>
          if reaches_pause line \<and> pause_raises server then Inl BrowserError
          else if ok then server_loop rest (success_count + 1, fail_count, results @ [line])
          else server_loop rest (success_count, fail_count + 1, results @ [line]))"

text \<open>What comes before the loop inside the \<open>try\<close> of \<open>main\<close>: an exception (of the
  injection of the cookies, of the navigation, of a screenshot), a redirection to the
  login page, or a session that is logged in.\<close>

datatype session_result = Session_raises | Need_login | Logged_in

text \<open>The environment of a run: whether making the output directory raises, whether
  the cookies are set in the environment, whether starting the browser raises (before
  the \<open>try\<close>), the session, the servers that the interception found, and whether closing
  the browser in the \<open>finally\<close> raises.\<close>

record panel_env =
  output_dir_raises :: bool
  cookies_set :: bool
  launch_raises :: bool
  session :: session_result
  servers :: "server_obs list"
  close_raises :: bool

text \<open>The notifications by their stage: initialisation failed, login check, no server,
  exception of the script, all done, done in part, all failed.\<close>

datatype panel_notice =
  Init_failed | Login_check | No_servers | Script_exception | All_done | Part_done | All_failed

text \<open>The exit code of the process and the notification it sent, if any (none when an
  exception ends \<open>main\<close> outside its \<open>try\<close>).\<close>

record panel_run =
  p_exit :: int
  p_notice :: "(bool \<times> panel_notice) option"

definition panel_main :: "panel_env \<Rightarrow> panel_run" where
  "panel_main env =
     (if output_dir_raises env then \<lparr>p_exit = 1, p_notice = None\<rparr>
      else if \<not> cookies_set env then \<lparr>p_exit = 1, p_notice = Some (False, Init_failed)\<rparr>
      else if launch_raises env then \<lparr>p_exit = 1, p_notice = None\<rparr>
      else
        (let r = (case session env of
                    Session_raises \<Rightarrow> \<lparr>p_exit = 1, p_notice = Some (False, Script_exception)\<rparr>
                  | Need_login \<Rightarrow> \<lparr>p_exit = 1, p_notice = Some (False, Login_check)\<rparr>
                  | Logged_in \<Rightarrow>
                      if servers env = [] then
                        \<lparr>p_exit = 1, p_notice = Some (False, No_servers)\<rparr>
                      else
                        (case server_loop (servers env) (0, 0, []) of
                           Inl e \<Rightarrow> \<lparr>p_exit = 1, p_notice = Some (False, Script_exception)\<rparr>
                         | Inr (success_count, fail_count, results) \<Rightarrow>
                             if fail_count = 0 then
                               \<lparr>p_exit = 0, p_notice = Some (True, All_done)\<rparr>
                             else if success_count > 0 then
                               \<lparr>p_exit = 0, p_notice = Some (True, Part_done)\<rparr>
                             else \<lparr>p_exit = 1, p_notice = Some (False, All_failed)\<rparr>))
         in if close_raises env then r\<lparr>p_exit := 1\<rparr> else r))"

text \<open>Whether a server counts as a success, whether its pause ends the loop, and the
  runs that complete: they reach the report and close the browser.\<close>

definition server_ok :: "server_obs \<Rightarrow> bool" where
  "server_ok ob = fst (process_server ob)"

definition pause_interrupts :: "server_obs \<Rightarrow> bool" where
  "pause_interrupts ob = (reaches_pause (snd (process_server ob)) \<and> pause_raises ob)"

definition panel_completes :: "panel_env \<Rightarrow> bool" where
  "panel_completes env =
     (\<not> output_dir_raises env \<and> cookies_set env \<and> \<not> launch_raises env
      \<and> session env = Logged_in \<and> servers env \<noteq> []
      \<and> \<not> list_ex pause_interrupts (servers env) \<and> \<not> close_raises env)"

subsection \<open>\<open>scripts/data-online_renew.py\<close>: \<open>main\<close>\<close>

text \<open>What the polling after the submission of the form finds: a disabled account, a
  wrong password, a success, or nothing in ten rounds. What follows a success: the
  terminal page redirects to the login, the command is sent, or a step raises (the
  screenshot after the login, the navigation to the terminal, the typing).\<close>

datatype login_result = Login_disabled | Login_wrong_password | Login_success | Login_timeout

datatype terminal_result = Redirected_to_login | Command_sent | Step_raises

text \<open>The environment of a run: the three settings, whether starting the browser
  raises (before the \<open>try\<close>), the result of the login (\<open>None\<close> when a step before it
  raises: the page does not load, the form is not found, a field cannot be filled), what
  follows a success, and whether closing the browser in the \<open>finally\<close> raises.\<close>

record online_env =
  has_username :: bool
  has_password :: bool
  has_command :: bool
  browser_raises :: bool
  login :: "login_result option"
  after_login :: terminal_result
  closing_raises :: bool

text \<open>\<open>final_status\<close>: \<open>"failed"\<close>, \<open>"disabled"\<close>, \<open>"wrong_password"\<close>, \<open>"success"\<close>. It
  starts as \<open>"failed"\<close>, the polling sets it, and a redirection of the terminal page
  sets it back to \<open>"failed"\<close>; the handler of the \<open>try\<close> leaves it as it is.\<close>

datatype final_status = Fs_failed | Fs_disabled | Fs_wrong_password | Fs_success

definition final_status_of :: "online_env \<Rightarrow> final_status" where
  "final_status_of env =
     (case login env of
        None \<Rightarrow> Fs_failed
      | Some Login_disabled \<Rightarrow> Fs_disabled
      | Some Login_wrong_password \<Rightarrow> Fs_wrong_password
      | Some Login_timeout \<Rightarrow> Fs_failed
      | Some Login_success \<Rightarrow>
          (case after_login env of
             Redirected_to_login \<Rightarrow> Fs_failed
           | Command_sent \<Rightarrow> Fs_success
           | Step_raises \<Rightarrow> Fs_success))"

text \<open>The exit code of the process. After \<open>exit(0)\<close> for an account problem and
  \<open>exit(1)\<close> for a failure, a success leaves \<open>main\<close> at its end, with status 0.\<close>

definition data_online_main :: "online_env \<Rightarrow> int" where
  "data_online_main env =
     (if \<not> has_username env then 1
      else if \<not> has_password env then 1
      else if \<not> has_command env then 1
      else if browser_raises env then 1
      else if closing_raises env then 1
      else (let final_status = final_status_of env
            in if final_status \<in> set [Fs_disabled, Fs_wrong_password] then 0
               else if final_status \<noteq> Fs_success then 1
               else 0))"

text \<open>The runs that get through to the final test, and those in which a step raises
  after a successful login.\<close>

definition online_completes :: "online_env \<Rightarrow> bool" where
  "online_completes env =
     (has_username env \<and> has_password env \<and> has_command env
      \<and> \<not> browser_raises env \<and> \<not> closing_raises env)"

definition raises_after_login :: "online_env \<Rightarrow> bool" where
  "raises_after_login env = (login env = Some Login_success \<and> after_login env = Step_raises)"

subsection \<open>\<open>nodeloc/main.py\<close>: \<open>process_account\<close> and \<open>main\<close>\<close>

text \<open>The literals in UTF-8: the tag of a failure, a bracketed U+274C; U+8D26 U+53F7
  (account); U+6D4F U+89C8 U+5668 U+542F U+52A8 U+5931 U+8D25 (the browser failed to start);
  U+767B U+5F55 U+5931 U+8D25 (login failed); U+5F02 U+5E38, a colon and a blank
  (exception).\<close>

definition tag_failure :: string where
  "tag_failure = [CHR ''['', CHR 0xE2, CHR 0x9D, CHR 0x8C, CHR '']'']"

definition txt_account :: string where
  "txt_account = [CHR 0xE8, CHR 0xB4, CHR 0xA6, CHR 0xE5, CHR 0x8F, CHR 0xB7]"

definition txt_browser_failed :: string where
  "txt_browser_failed =
     [CHR 0xE6, CHR 0xB5, CHR 0x8F, CHR 0xE8, CHR 0xA7, CHR 0x88, CHR 0xE5, CHR 0x99, CHR 0xA8,
      CHR 0xE5, CHR 0x90, CHR 0xAF, CHR 0xE5, CHR 0x8A, CHR 0xA8, CHR 0xE5, CHR 0xA4, CHR 0xB1,
      CHR 0xE8, CHR 0xB4, CHR 0xA5]"

definition txt_login_failed :: string where
  "txt_login_failed =
     [CHR 0xE7, CHR 0x99, CHR 0xBB, CHR 0xE5, CHR 0xBD, CHR 0x95, CHR 0xE5, CHR 0xA4, CHR 0xB1,
      CHR 0xE8, CHR 0xB4, CHR 0xA5]"

definition txt_exception :: string where
  "txt_exception = [CHR 0xE5, CHR 0xBC, CHR 0x82, CHR 0xE5, CHR 0xB8, CHR 0xB8, CHR '':'', CHR '' '']"

text \<open>What one account shows: \<open>create_browser()\<close> raises, returns nothing or returns a
  driver; whether \<open>do_login\<close> succeeds (it catches its exceptions); the text of the
  exception when opening the home page raises inside the \<open>try\<close>; and the line that
  \<open>do_checkin\<close> returns (it catches its exceptions).\<close>

datatype browser_start = Start_raises | No_driver | Driver_ok

record account_obs =
  browser :: browser_start
  login_ok :: bool
  home_raises :: "string option"
  checkin_line :: string

text \<open>\<open>process_account\<close>: \<open>create_browser()\<close> is called before the \<open>try\<close>, so its
  exception leaves the function.\<close>

definition process_account :: "string \<Rightarrow> nat \<Rightarrow> account_obs \<Rightarrow> py_error + string" where
  "process_account username index ob =
     (let masked_name = mask_username username
      in case browser ob of
           Start_raises \<Rightarrow> Inl BrowserError
         | No_driver \<Rightarrow>
             Inr (tag_failure @ '' '' @ txt_account @ digits index @ '' ('' @ masked_name @ '') ''
                  @ txt_browser_failed)
         | Driver_ok \<Rightarrow>
             if \<not> login_ok ob then
               Inr (tag_failure @ '' '' @ txt_account @ digits index @ '' ('' @ masked_name @ '') ''
                    @ txt_login_failed)
             else (case home_raises ob of
                     Some e \<Rightarrow>
                       Inr (tag_failure @ '' '' @ txt_account @ digits index @ '' (''
                            @ masked_name @ '') '' @ txt_exception @ e)
                   | None \<Rightarrow> Inr (checkin_line ob)))"

text \<open>\<open>for idx, acc in enumerate(accounts, 1)\<close>: a result counts as a success when it
  holds the tag of a check-in or the tag of a check-in already made.\<close>

fun account_loop ::
  "(string \<times> account_obs) list \<Rightarrow> nat \<Rightarrow> nat \<times> nat \<Rightarrow> py_error + nat \<times> nat" where
  "account_loop [] idx acc = Inr acc"
| "account_loop ((username, ob) # rest) idx (success_count, fail_count) =
     (case process_account username idx ob of
        Inl e \<Rightarrow> Inl e
      | Inr result \<Rightarrow>
          if py_in tag_success result \<or> py_in tag_skipped result
          then account_loop rest (idx + 1) (success_count + 1, fail_count)
          else account_loop rest (idx + 1) (success_count, fail_count + 1))"

text \<open>The environment of a run: the accounts with what each shows (\<open>None\<close> when the
  variable of the accounts is not set), and whether making the screenshot directory
  raises. \<open>main\<close> calls no \<open>exit\<close>: the status is 0 when it returns and 1 when an
  exception leaves it, for which it has no handler.\<close>

record nodeloc_env =
  accounts :: "(string \<times> account_obs) list option"
  dir_raises :: bool

record nodeloc_run =
  n_exit :: int
  n_counts :: "(nat \<times> nat) option"

definition nodeloc_main :: "nodeloc_env \<Rightarrow> nodeloc_run" where
  "nodeloc_main env =
     (case accounts env of
        None \<Rightarrow> \<lparr>n_exit = 0, n_counts = None\<rparr>
      | Some accs \<Rightarrow>
          if accs = [] then \<lparr>n_exit = 0, n_counts = None\<rparr>
          else if dir_raises env then \<lparr>n_exit = 1, n_counts = None\<rparr>
          else (case account_loop accs 1 (0, 0) of
                  Inl e \<Rightarrow> \<lparr>n_exit = 1, n_counts = None\<rparr>
                | Inr counts \<Rightarrow> \<lparr>n_exit = 0, n_counts = Some counts\<rparr>))"

text \<open>The runs that an uncaught exception ends.\<close>

definition nodeloc_crashes :: "nodeloc_env \<Rightarrow> bool" where
  "nodeloc_crashes env =
     (case accounts env of
        None \<Rightarrow> False
      | Some accs \<Rightarrow>
          accs \<noteq> [] \<and> (dir_raises env \<or> list_ex (\<lambda>a. browser (snd a) = Start_raises) accs))"

subsection \<open>The three classes of a run\<close>

text \<open>A run of several targets has all succeeded, all failed or, with at least one of
  each, succeeded in part.\<close>

datatype run_class = All_succeeded | Partial_success | All_targets_failed

definition run_class_of :: "bool list \<Rightarrow> run_class" where
  "run_class_of oks =
     (if list_all (\<lambda>ok. ok) oks then All_succeeded
      else if list_ex (\<lambda>ok. ok) oks then Partial_success
      else All_targets_failed)"

section \<open>Sample inputs\<close>

text \<open>A server that restarts, and one whose page times out; a run of the panel script
  with the first alone, and one with both.\<close>

definition restarting_server :: server_obs where
  "restarting_server =
     \<lparr>so_exn = No_exn, btn_found = True, restart_disabled = False, start_works = False,
      pause_raises = False\<rparr>"

definition hanging_server :: server_obs where
  "hanging_server =
     \<lparr>so_exn = Timeout_exn, btn_found = False, restart_disabled = False, start_works = False,
      pause_raises = False\<rparr>"

definition all_done_env :: panel_env where
  "all_done_env =
     \<lparr>output_dir_raises = False, cookies_set = True, launch_raises = False,
      session = Logged_in, servers = [restarting_server], close_raises = False\<rparr>"

definition part_done_env :: panel_env where
  "part_done_env =
     \<lparr>output_dir_raises = False, cookies_set = True, launch_raises = False,
      session = Logged_in, servers = [restarting_server, hanging_server],
      close_raises = False\<rparr>"

text \<open>A run of the terminal script for a disabled account, and a run of the check-in
  script whose only account fails to log in.\<close>

definition disabled_account_env :: online_env where
  "disabled_account_env =
     \<lparr>has_username = True, has_password = True, has_command = True, browser_raises = False,
      login = Some Login_disabled, after_login = Command_sent, closing_raises = False\<rparr>"

definition failed_login_env :: nodeloc_env where
  "failed_login_env =
     \<lparr>accounts = Some [(''alice'', \<lparr>browser = Driver_ok, login_ok = False, home_raises = None,
                                     checkin_line = []\<rparr>)],
      dir_raises = False\<rparr>"

text \<open>An attempt that finds no challenge, and one that finds a challenge that never
  passes.\<close>

definition absent_attempt :: attempt_obs where
  "absent_attempt =
     \<lparr>has_turnstile = Some False, is_checked = Some False, click_ok = True, recheck = Some False\<rparr>"

definition stuck_attempt :: attempt_obs where
  "stuck_attempt =
     \<lparr>has_turnstile = Some True, is_checked = Some False, click_ok = True, recheck = Some False\<rparr>"

text \<open>A round that renews with three days on the counter; a run that reaches the loop
  and renews in every round; a run whose session page is the login page.\<close>

definition renewing_round :: round_obs where
  "renewing_round =
     \<lparr>raises_at = None, btn_disabled = False, modal_visible = True, renew_btn_usable = True,
      limit_reached = False, current_days = Days_parsed 3\<rparr>"


definition login_redirect_env :: run_env where
  "login_redirect_env =
     \<lparr>cookies_str = ''session_id=expired'', crash_stage = None,
      first_page_error = None, first_blocked = False, session_page_error = None,
      login_view = Some (''https://billing.kerit.cloud/login'',
                         Some \<lparr>has_logout_link = False, has_free_panel_link = False,
                               body_text = ''Sign in''\<rparr>),
      panel_url = ''https://billing.kerit.cloud/login'', panel_page_error = None,
      retry_url = ''https://billing.kerit.cloud/login'', retry_page_error = None,
      panel_blocked = False, renew_button_disabled = False, rounds = (\<lambda>r. renewing_round),
      final_cookies = None\<rparr>"

section \<open>Properties of the masking helpers\<close>

lemma mask_username_shape: "masked_shape s (mask_username s)"
proof -
  consider "length s \<le> 2" | "3 \<le> length s" "length s \<le> 4" | "length s = 5" | "6 \<le> length s"
    by linarith
  then show ?thesis
  proof cases
    case 1
    have "mask_username s = take 0 s @ replicate 3 CHR ''*'' @ drop (length s - 0) s"
      using 1 by (auto simp: mask_username_def numeral_3_eq_3)
    then show ?thesis unfolding masked_shape_def by (intro exI[of _ 0] exI[of _ 3]) simp
  next
    case 2
    have "mask_username s = take 1 s @ replicate (length s - 1) CHR ''*'' @ drop (length s - 0) s"
      using 2 by (auto simp: mask_username_def)
    then show ?thesis unfolding masked_shape_def using 2
      by (intro exI[of _ 1] exI[of _ 0] exI[of _ "length s - 1"]) simp
  next
    case 3
    have "mask_username s = take 1 s @ replicate 3 CHR ''*'' @ drop (length s - 1) s"
      using 3 by (auto simp: mask_username_def last_chars_def)
    then show ?thesis unfolding masked_shape_def using 3
      by (intro exI[of _ 1] exI[of _ 1] exI[of _ 3]) simp
  next
    case 4
    then have "min 2 (length s div 3) = 2" by (simp add: min_def)
    then have "mask_username s = take 2 s @ replicate (length s - 4) CHR ''*'' @ drop (length s - 2) s"
      using 4 by (auto simp: mask_username_def last_chars_def Let_def)
    then show ?thesis unfolding masked_shape_def using 4
      by (intro exI[of _ 2] exI[of _ 2] exI[of _ "length s - 4"]) simp
  qed
qed

lemma mask_shape: "masked_shape s (mask_str s)"
proof (cases "length s \<le> 4")
  case True
  then have "mask_str s = take 0 s @ replicate 4 CHR ''*'' @ drop (length s - 0) s"
    by (auto simp: mask_str_def numeral_eq_Suc)
  then show ?thesis unfolding masked_shape_def by (intro exI[of _ 0] exI[of _ 4]) simp
next
  case False
  then have "mask_str s = take 2 s @ replicate 3 CHR ''*'' @ drop (length s - 2) s"
    by (auto simp: mask_str_def last_chars_def numeral_eq_Suc)
  then show ?thesis unfolding masked_shape_def using False
    by (intro exI[of _ 2] exI[of _ 2] exI[of _ 3]) simp
qed

lemma mask_id_shape: "masked_shape s (mask_id s)"
proof (cases "length s \<le> 2")
  case True
  then have "mask_id s = take (length s) s @ replicate 0 CHR ''*'' @ drop (length s - 0) s"
    by (auto simp: mask_id_def)
  then show ?thesis unfolding masked_shape_def using True
    by (intro exI[of _ "length s"] exI[of _ 0]) simp
next
  case False
  then have "mask_id s = take 1 s @ replicate (length s - 2) CHR ''*'' @ drop (length s - 1) s"
    by (auto simp: mask_id_def last_chars_def)
  then show ?thesis unfolding masked_shape_def using False
    by (intro exI[of _ 1] exI[of _ 1] exI[of _ "length s - 2"]) simp
qed

lemma masked_shape_chars:
  assumes "masked_shape s out"
  shows "set (filter (\<lambda>c. c \<noteq> CHR ''*'') out) \<subseteq> set (take 2 s) \<union> set (drop (length s - 2) s)"
proof -
  from assms obtain a b n where
    out: "out = take a s @ replicate n CHR ''*'' @ drop (length s - b) s" and a: "a \<le> 2" and b: "b \<le> 2"
    unfolding masked_shape_def by blast
  have "set (take a s) \<subseteq> set (take 2 s)" using a by (simp add: set_take_subset_set_take)
  moreover have "set (drop (length s - b) s) \<subseteq> set (drop (length s - 2) s)"
    using b by (simp add: set_drop_subset_set_drop)
  ultimately show ?thesis unfolding out by auto
qed

text \<open>
  Claim C10. Each masking helper (\<open>mask_username\<close>, \<open>mask\<close>, \<open>mask_id\<close>) returns, for
  every input, a string made of at most two leading characters of the input, stars, and
  at most two trailing characters of the input, the two parts never overlapping: every
  character of the result other than \<open>*\<close> is one of the first two or of the last two
  characters of the input, and no character between them is copied to the result.
\<close>

theorem masking_bound:
  "masked_shape s (mask_username s) \<and> masked_shape s (mask_str s) \<and> masked_shape s (mask_id s)
   \<and> set (filter (\<lambda>c. c \<noteq> CHR ''*'') (mask_username s))
         \<subseteq> set (take 2 s) \<union> set (drop (length s - 2) s)
   \<and> set (filter (\<lambda>c. c \<noteq> CHR ''*'') (mask_str s))
         \<subseteq> set (take 2 s) \<union> set (drop (length s - 2) s)
   \<and> set (filter (\<lambda>c. c \<noteq> CHR ''*'') (mask_id s))
         \<subseteq> set (take 2 s) \<union> set (drop (length s - 2) s)"
  using mask_username_shape [of s] mask_shape [of s] mask_id_shape [of s]
    masked_shape_chars [of s "mask_username s"] masked_shape_chars [of s "mask_str s"]
    masked_shape_chars [of s "mask_id s"]
  by blast

lemma masking_examples:
  "mask_username ''alice'' = ''a***e''" "mask_username ''charlie'' = ''ch***ie''"
  "mask_username ''bob'' = ''b**''" "mask_str ''socks5://proxy'' = ''so***xy''"
  "mask_id ''a1b2c3d4'' = ''a******4''" "mask_id ''ab'' = ''ab''"
  by (simp_all add: mask_username_def mask_str_def mask_id_def last_chars_def)

section \<open>Properties of the credential store adapter\<close>

subsection \<open>Strings and dictionaries\<close>

lemmas strip_eval = strip_def lstrip_def rstrip_def head_len_def ws_codes_def

lemma py_in_single: "py_in [c] s = (c \<in> set s)"
  by (induction s) auto

lemma unpack2_split_once:
  "c \<in> set s \<Longrightarrow> unpack2 (split_once c s) = Inr (takeWhile (\<lambda>x. x \<noteq> c) s, drop 1 (dropWhile (\<lambda>x. x \<noteq> c) s))"
  by (simp add: split_once_def)

lemma parse_cookies_loop_fold:
  "parse_cookies_loop parts seen = Inr (fold cookie_step parts seen)"
proof (induction parts arbitrary: seen)
  case Nil
  show ?case by simp
next
  case (Cons part parts)
  show ?case
  proof (cases "CHR ''='' \<in> set (strip part)")
    case True
    then show ?thesis
      using Cons.IH
      by (simp add: py_in_single unpack2_split_once Let_def cookie_step_def well_formed_def
          has_eq_def seg_name_def seg_value_def)
  next
    case False
    then show ?thesis
      using Cons.IH by (simp add: py_in_single Let_def cookie_step_def well_formed_def has_eq_def)
  qed
qed

lemma fold_cookie_step:
  "fold cookie_step parts seen =
     fold (\<lambda>(k, v) d. dict_set d k v)
       (map (\<lambda>seg. (seg_name seg, seg_value seg)) (filter well_formed (map strip parts))) seen"
  by (induction parts arbitrary: seen) (simp_all add: cookie_step_def)

lemma segments_empty: "segments [] = [[]]"
  by (simp add: segments_def strip_eval)

lemma not_well_formed_empty: "\<not> well_formed []"
  by (simp add: well_formed_def has_eq_def)

lemma parse_cookies_fold:
  "parse_cookies s = Inr (fold (\<lambda>(k, v) d. dict_set d k v) (wf_pairs s) [])"
proof (cases "s = []")
  case True
  then show ?thesis
    by (simp add: parse_cookies_def wf_pairs_def segments_empty not_well_formed_empty)
next
  case False
  then show ?thesis
    by (simp add: parse_cookies_def parse_cookies_loop_fold fold_cookie_step wf_pairs_def segments_def)
qed

lemma map_of_dict_set: "map_of (dict_set d k v) = (map_of d)(k \<mapsto> v)"
  by (induction d k v rule: dict_set.induct) (auto simp: fun_eq_iff)

lemma keys_dict_set: "fst ` set (dict_set d k v) = insert k (fst ` set d)"
  by (induction d k v rule: dict_set.induct) auto

lemma distinct_dict_set: "distinct (map fst d) \<Longrightarrow> distinct (map fst (dict_set d k v))"
proof (induction d k v rule: dict_set.induct)
  case (1 k v)
  show ?case by simp
next
  case (2 k' v' d k v)
  then show ?case using keys_dict_set [of d k v] by (auto simp: image_iff)
qed

lemma distinct_fold_dict_set:
  "distinct (map fst d) \<Longrightarrow> distinct (map fst (fold (\<lambda>(k, v) d. dict_set d k v) ps d))"
  by (induction ps arbitrary: d) (auto simp: distinct_dict_set)

lemma last_value_map_of: "last_value k ps = map_of (rev ps) k"
  by (induction ps) (auto simp: map_add_def split: option.splits)

lemma map_of_fold_dict_set:
  "map_of (fold (\<lambda>(k, v) d. dict_set d k v) ps d) = map_of d ++ map_of (rev ps)"
proof (induction ps arbitrary: d)
  case Nil
  show ?case by simp
next
  case (Cons p ps)
  obtain k v where p: "p = (k, v)" by (cases p)
  have "map_of (fold (\<lambda>(k, v) d. dict_set d k v) (p # ps) d)
        = map_of (dict_set d k v) ++ map_of (rev ps)"
    using Cons.IH [of "dict_set d k v"] by (simp add: p)
  also have "\<dots> = map_of d ++ (map_of [(k, v)] ++ map_of (rev ps))"
    by (simp add: map_of_dict_set fun_eq_iff map_add_def split: option.splits)
  also have "\<dots> = map_of d ++ map_of (rev (p # ps))"
    by (simp add: p)
  finally show ?case .
qed

lemma keys_fold_dict_set:
  "fst ` set (fold (\<lambda>(k, v) d. dict_set d k v) ps d) = fst ` set d \<union> fst ` set ps"
proof (induction ps arbitrary: d)
  case Nil
  show ?case by simp
next
  case (Cons p ps)
  obtain k v where p: "p = (k, v)" by (cases p)
  show ?case using Cons.IH [of "dict_set d k v"] by (simp add: p keys_dict_set)
qed

lemma set_dict_set: "set (dict_set d k v) \<subseteq> insert (k, v) (set d)"
  by (induction d k v rule: dict_set.induct) auto

lemma set_fold_dict_set:
  "set (fold (\<lambda>(k, v) d. dict_set d k v) ps d) \<subseteq> set d \<union> set ps"
proof (induction ps arbitrary: d)
  case Nil
  show ?case by simp
next
  case (Cons p ps)
  obtain k v where p: "p = (k, v)" by (cases p)
  show ?case using Cons.IH [of "dict_set d k v"] set_dict_set [of d k v] by (auto simp: p)
qed


lemma py_index_found:
  "c \<in> set s \<Longrightarrow> py_index c s = Inr (length (takeWhile (\<lambda>x. x \<noteq> c) s))"
  by (simp add: py_index_def)

lemma take_length_takeWhile: "take (length (takeWhile P s)) s = takeWhile P s"
  by (induction s) auto

lemma drop_length_takeWhile: "drop (length (takeWhile P s)) s = dropWhile P s"
  by (induction s) auto

lemma drop_Suc_length_takeWhile: "drop (Suc (length (takeWhile P s))) s = drop 1 (dropWhile P s)"
  using drop_length_takeWhile [of P s] by (metis Suc_eq_plus1 add.commute drop_drop)

lemma parse_cookie_string_loop_eq:
  "parse_cookie_string_loop unquote domain items cookies =
     Inr (cookies @ map (the_cookie unquote domain) (filter has_eq (map strip items)))"
proof (induction items arbitrary: cookies)
  case Nil
  show ?case by simp
next
  case (Cons item items)
  show ?case
  proof (cases "has_eq (strip item)")
    case True
    then have "strip item \<noteq> []" by (auto simp: has_eq_def)
    then show ?thesis
      using True Cons.IH
      by (simp add: py_in_single py_index_found Let_def has_eq_def the_cookie_def unq_def
          seg_name_def seg_value_def take_length_takeWhile drop_Suc_length_takeWhile)
  next
    case False
    then show ?thesis
      using Cons.IH by (simp add: py_in_single Let_def has_eq_def)
  qed
qed

lemma not_has_eq_empty: "\<not> has_eq []"
  by (simp add: has_eq_def)

lemma parse_cookie_string_eq:
  "parse_cookie_string unquote s domain =
     Inr (map (the_cookie unquote domain) (filter has_eq (segments s)))"
proof (cases "s = []")
  case True
  then show ?thesis by (simp add: parse_cookie_string_def segments_empty not_has_eq_empty)
next
  case False
  then show ?thesis by (simp add: parse_cookie_string_def parse_cookie_string_loop_eq segments_def)
qed

lemma head_len_zero:
  assumes "[] \<notin> set codes"
  shows "head_len codes s = 0 \<longleftrightarrow> (\<forall>w \<in> set codes. \<not> prefix w s)"
proof (cases "find (\<lambda>w. prefix w s) codes")
  case None
  then have "\<forall>w \<in> set codes. \<not> prefix w s" by (simp add: find_None_iff)
  with None show ?thesis by (simp add: head_len_def)
next
  case (Some w)
  then have "w \<in> set codes" "prefix w s" by (auto simp: find_Some_iff)
  with assms Some show ?thesis by (auto simp: head_len_def)
qed

lemma drop_codes_length: "length (drop_codes codes s) \<le> length s"
proof (induction codes s rule: drop_codes.induct)
  case (1 codes)
  show ?case by simp
next
  case (2 codes c cs)
  show ?case
  proof (cases "head_len codes (c # cs) = 0")
    case True
    then show ?thesis by simp
  next
    case False
    with 2 have "length (drop_codes codes (drop (head_len codes (c # cs) - 1) cs))
        \<le> length (drop (head_len codes (c # cs) - 1) cs)" by simp
    with False show ?thesis by (simp add: Let_def)
  qed
qed

lemma drop_codes_id: "head_len codes s = 0 \<Longrightarrow> drop_codes codes s = s"
  by (cases s) simp_all

lemma drop_codes_fixed:
  assumes "s \<noteq> []" and "drop_codes codes s = s"
  shows "head_len codes s = 0"
proof (rule ccontr)
  assume n: "head_len codes s \<noteq> 0"
  from assms(1) obtain c cs where s: "s = c # cs" by (cases s) auto
  with n have "drop_codes codes s = drop_codes codes (drop (head_len codes s - 1) cs)"
    by (simp add: Let_def)
  moreover have "length (drop_codes codes (drop (head_len codes s - 1) cs)) \<le> length cs"
    using drop_codes_length [of codes "drop (head_len codes s - 1) cs"] by simp
  ultimately have "length (drop_codes codes s) < length s" by (simp add: s)
  with assms(2) show False by simp
qed

lemma ws_codes_facts:
  "[] \<notin> set ws_codes" "[] \<notin> set (map rev ws_codes)"
  "\<forall>w \<in> set (map rev ws_codes). CHR ''='' \<notin> set w"
  by (simp_all add: ws_codes_def)

lemma rstrip_after_eq:
  assumes "v \<noteq> []" and "rstrip v = v"
  shows "rstrip (x @ CHR ''='' # v) = x @ CHR ''='' # v"
proof -
  let ?R = "map rev ws_codes"
  from assms(2) have "rev (rev (drop_codes ?R (rev v))) = rev v" by (simp add: rstrip_def)
  then have "drop_codes ?R (rev v) = rev v" by simp
  with assms(1) have "head_len ?R (rev v) = 0" by (intro drop_codes_fixed) simp_all
  then have none: "\<forall>w \<in> set ?R. \<not> prefix w (rev v)"
    using head_len_zero [OF ws_codes_facts(2)] by blast
  have "\<forall>w \<in> set ?R. \<not> prefix w (rev v @ CHR ''='' # rev x)"
  proof (intro ballI notI)
    fix w assume w: "w \<in> set ?R" and p: "prefix w (rev v @ CHR ''='' # rev x)"
    from p have "prefix w (rev v) \<or> (\<exists>us. w = rev v @ us \<and> prefix us (CHR ''='' # rev x))"
      by (simp add: prefix_append)
    then show False
    proof
      assume "prefix w (rev v)"
      with none w show False by blast
    next
      assume "\<exists>us. w = rev v @ us \<and> prefix us (CHR ''='' # rev x)"
      then obtain us where us: "w = rev v @ us" "prefix us (CHR ''='' # rev x)" by blast
      show False
      proof (cases us)
        case Nil
        with us(1) have "prefix w (rev v)" by simp
        with none w show False by blast
      next
        case (Cons u us')
        with us(2) have "u = CHR ''=''" by simp
        with us(1) Cons have "CHR ''='' \<in> set w" by simp
        with ws_codes_facts(3) w show False by blast
      qed
    qed
  qed
  then have "head_len ?R (rev (x @ CHR ''='' # v)) = 0"
    using head_len_zero [OF ws_codes_facts(2)] by simp
  then have "drop_codes ?R (rev (x @ CHR ''='' # v)) = rev (x @ CHR ''='' # v)"
    by (rule drop_codes_id)
  then show ?thesis unfolding rstrip_def by (simp only: rev_rev_ident)
qed

lemma strip_blank_cons: "strip (CHR '' '' # s) = strip s"
  by (simp add: strip_eval)

lemma allow_listed_key:
  assumes "k \<in> {''session_id'', ''cf_clearance''}"
  shows "lstrip (k @ r) = k @ r" "strip k = k" "k \<noteq> []"
    "CHR ''='' \<notin> set k" "CHR '';'' \<notin> set k"
  using assms by (auto simp: strip_eval)

lemma pair_text_strip:
  assumes "k \<in> {''session_id'', ''cf_clearance''}" and "clean_value v"
  shows "strip (k @ CHR ''='' # v) = k @ CHR ''='' # v"
proof -
  from assms(2) have "rstrip (k @ CHR ''='' # v) = k @ CHR ''='' # v"
    by (intro rstrip_after_eq) (simp_all add: clean_value_def)
  then show ?thesis by (simp add: strip_def allow_listed_key(1) [OF assms(1)])
qed

lemma pair_text_parts:
  assumes "k \<in> {''session_id'', ''cf_clearance''}" and "clean_value v"
  shows "well_formed (k @ CHR ''='' # v)" "seg_name (k @ CHR ''='' # v) = k"
    "seg_value (k @ CHR ''='' # v) = v"
proof -
  from allow_listed_key(4) [OF assms(1)] have noeq: "\<forall>c \<in> set k. c \<noteq> CHR ''=''" by auto
  then have tw: "takeWhile (\<lambda>c. c \<noteq> CHR ''='') (k @ CHR ''='' # v) = k"
    by (simp add: takeWhile_append2)
  from noeq have dw: "dropWhile (\<lambda>c. c \<noteq> CHR ''='') (k @ CHR ''='' # v) = CHR ''='' # v"
    by (simp add: dropWhile_append2)
  from assms(2) have sv: "strip v = v" by (simp add: clean_value_def strip_def)
  show n: "seg_name (k @ CHR ''='' # v) = k"
    by (simp add: seg_name_def tw allow_listed_key(2) [OF assms(1)])
  show v: "seg_value (k @ CHR ''='' # v) = v" by (simp add: seg_value_def dw sv)
  from assms n v allow_listed_key(3) [OF assms(1)] show "well_formed (k @ CHR ''='' # v)"
    by (simp add: well_formed_def has_eq_def clean_value_def)
qed

lemma cookie_step_pair:
  assumes "k \<in> {''session_id'', ''cf_clearance''}" and "clean_value v"
  shows "cookie_step (k @ CHR ''='' # v) seen = dict_set seen k v"
    and "cookie_step (CHR '' '' # k @ CHR ''='' # v) seen = dict_set seen k v"
  using pair_text_parts [OF assms] pair_text_strip [OF assms]
  by (simp_all add: cookie_step_def strip_blank_cons)

lemma split_char_not_empty: "split_char sep s \<noteq> []"
  by (induction s) (auto split: list.splits)

lemma split_char_no_sep: "sep \<notin> set s \<Longrightarrow> split_char sep s = [s]"
  by (induction s) auto

lemma split_char_append: "sep \<notin> set p \<Longrightarrow> split_char sep (p @ sep # r) = p # split_char sep r"
  by (induction p) auto

lemma split_join:
  assumes "ps \<noteq> []" and "\<forall>p \<in> set ps. CHR '';'' \<notin> set p"
  shows "split_char CHR '';'' (join ''; '' ps) = hd ps # map ((#) CHR '' '') (tl ps)"
  using assms
proof (induction "''; ''" ps rule: join.induct)
  case 1
  then show ?case by simp
next
  case (2 p)
  then show ?case by (simp add: split_char_no_sep)
next
  case (3 p q ps)
  then have ih: "split_char CHR '';'' (join ''; '' (q # ps)) = q # map ((#) CHR '' '') ps"
    by simp
  from 3 have "CHR '';'' \<notin> set p" by simp
  then have "split_char CHR '';'' (join ''; '' (p # q # ps))
      = p # split_char CHR '';'' (CHR '' '' # join ''; '' (q # ps))"
    using split_char_append [of "CHR '';''" p "CHR '' '' # join ''; '' (q # ps)"] by simp
  also have "\<dots> = p # (CHR '' '' # q) # map ((#) CHR '' '') ps"
    by (simp add: ih)
  finally show ?case by simp
qed

lemma dict_set_new: "k \<notin> fst ` set d \<Longrightarrow> dict_set d k v = d @ [(k, v)]"
  by (induction d k v rule: dict_set.induct) auto

lemma fold_dict_set_fresh:
  "distinct (map fst d) \<Longrightarrow> fst ` set acc \<inter> fst ` set d = {}
   \<Longrightarrow> fold (\<lambda>(k, v) a. dict_set a k v) d acc = acc @ d"
proof (induction d arbitrary: acc)
  case Nil
  show ?case by simp
next
  case (Cons p d)
  obtain k v where p: "p = (k, v)" by (cases p)
  from Cons.prems have new: "k \<notin> fst ` set acc" by (auto simp: p)
  from Cons.prems have "distinct (map fst d)" "fst ` set (acc @ [(k, v)]) \<inter> fst ` set d = {}"
    by (auto simp: p)
  then have "fold (\<lambda>(k, v) a. dict_set a k v) d (acc @ [(k, v)]) = (acc @ [(k, v)]) @ d"
    by (rule Cons.IH)
  then show ?case by (simp add: p dict_set_new [OF new])
qed

lemma fold_cookie_step_pairs:
  assumes "\<forall>(k, v) \<in> set d. k \<in> {''session_id'', ''cf_clearance''} \<and> clean_value v"
  shows "fold cookie_step (map (\<lambda>p. CHR '' '' # (case p of (k, v) \<Rightarrow> k @ ''='' @ v)) d) acc
         = fold (\<lambda>(k, v) a. dict_set a k v) d acc"
  using assms
proof (induction d arbitrary: acc)
  case Nil
  show ?case by simp
next
  case (Cons p d)
  obtain k v where p: "p = (k, v)" by (cases p)
  from Cons.prems have kv: "k \<in> {''session_id'', ''cf_clearance''}" "clean_value v"
    by (auto simp: p)
  from Cons.prems have rest:
    "\<forall>(k, v) \<in> set d. k \<in> {''session_id'', ''cf_clearance''} \<and> clean_value v" by simp
  show ?case using Cons.IH [OF rest] cookie_step_pair(2) [OF kv] by (simp add: p)
qed

lemma parse_serialize:
  assumes d: "distinct (map fst d)"
    and ok: "\<forall>(k, v) \<in> set d. k \<in> {''session_id'', ''cf_clearance''} \<and> clean_value v"
  shows "parse_cookies (serialize_cookies d) = Inr d"
proof (cases d)
  case Nil
  then show ?thesis by (simp add: serialize_cookies_def parse_cookies_def)
next
  case (Cons p d')
  obtain k v where p: "p = (k, v)" by (cases p)
  let ?txt = "\<lambda>(k, v). k @ ''='' @ v"
  from ok Cons p have kv: "k \<in> {''session_id'', ''cf_clearance''}" "clean_value v" by auto
  from ok Cons have rest:
    "\<forall>(k, v) \<in> set d'. k \<in> {''session_id'', ''cf_clearance''} \<and> clean_value v" by simp
  have nosemi: "\<forall>t \<in> set (map ?txt d). CHR '';'' \<notin> set t"
  proof
    fix t assume "t \<in> set (map ?txt d)"
    then obtain k' v' where m: "(k', v') \<in> set d" and t: "t = k' @ ''='' @ v'" by auto
    from ok m have "k' \<in> {''session_id'', ''cf_clearance''}" "clean_value v'" by auto
    with allow_listed_key(5) [of k'] show "CHR '';'' \<notin> set t"
      by (simp add: t clean_value_def)
  qed
  have ne: "serialize_cookies d \<noteq> []"
  proof -
    have "serialize_cookies d = (k @ ''='' @ v) @ (case d' of [] \<Rightarrow> [] | _ \<Rightarrow> ''; '' @ join ''; '' (map ?txt d'))"
      by (cases d') (simp_all add: serialize_cookies_def Cons p)
    then show ?thesis by simp
  qed
  have "split_char CHR '';'' (serialize_cookies d) = ?txt p # map ((#) CHR '' '') (map ?txt d')"
    unfolding serialize_cookies_def using split_join [of "map ?txt d"] nosemi Cons by simp
  then have "parse_cookies (serialize_cookies d)
      = Inr (fold cookie_step ((k @ ''='' @ v) # map (\<lambda>p. CHR '' '' # ?txt p) d') [])"
    using ne by (simp add: parse_cookies_def parse_cookies_loop_fold p comp_def)
  also have "\<dots> = Inr (fold (\<lambda>(k, v) a. dict_set a k v) d' [(k, v)])"
    using fold_cookie_step_pairs [OF rest, of "[(k, v)]"] cookie_step_pair(1) [OF kv, of "[]"]
    by simp
  also have "\<dots> = Inr ([(k, v)] @ d')"
    using d Cons p by (subst fold_dict_set_fresh) auto
  finally show ?thesis by (simp add: Cons p)
qed

lemma important_cookies_distinct:
  "distinct (map fst acc) \<Longrightarrow> distinct (map fst (important_cookies cookies acc))"
  by (induction cookies acc rule: important_cookies.induct) (auto simp: distinct_dict_set)

lemma important_cookies_keys:
  "fst ` set (important_cookies cookies acc) \<subseteq> fst ` set acc \<union> {''session_id'', ''cf_clearance''}"
  by (induction cookies acc rule: important_cookies.induct) (auto simp: keys_dict_set)


lemma unicode_space_examples:
  "strip ([CHR 0xC2, CHR 0xA0] @ ''abc'' @ [CHR 0xE3, CHR 0x80, CHR 0x80]) = ''abc''"
  "parse_cookies (''a=1;a='' @ [CHR 0xC2, CHR 0xA0]) = Inr [(''a'', ''1'')]"
  "\<not> clean_value ([CHR 0xC2, CHR 0xA0] @ ''abc'')"
  by (simp_all add: parse_cookies_def clean_value_def strip_eval py_in_single split_once_def
      Let_def)

subsection \<open>Soft failure on malformed input\<close>

text \<open>
  Claim C7, as amended. For every credential string, \<open>parse_cookies\<close> and
  \<open>parse_cookie_string\<close> return a credential set and raise nothing (\<open>Inr\<close>).
  \<open>parse_cookie_string\<close> leaves out the segments that are empty or have no equals sign,
  and only those: it returns one cookie for every other segment, in the order of the
  string, also for one whose name or value is blank. \<open>parse_cookies\<close> leaves out, besides
  those, every segment whose name or value is blank once stripped: the names of its
  result are the names of the well-formed segments, and every entry of its result is the
  name and the value of a well-formed segment.
\<close>

theorem parse_soft_fail:
  "(\<exists>d. parse_cookies s = Inr d
      \<and> fst ` set d = seg_name ` set (filter well_formed (segments s))
      \<and> (\<forall>(k, v) \<in> set d. \<exists>seg \<in> set (segments s).
            well_formed seg \<and> k = seg_name seg \<and> v = seg_value seg))
   \<and> (\<exists>cs. parse_cookie_string unquote s domain = Inr cs
      \<and> map (\<lambda>c. (c_name c, c_value c)) cs
          = map (\<lambda>seg. (seg_name seg, unq unquote (seg_value seg)))
              (filter has_eq (segments s)))"
proof (intro conjI)
  let ?d = "fold (\<lambda>(k, v) d. dict_set d k v) (wf_pairs s) []"
  have keys: "fst ` set ?d = seg_name ` set (filter well_formed (segments s))"
    using keys_fold_dict_set [of "wf_pairs s" "[]"] by (simp add: wf_pairs_def image_image)
  have sub: "set ?d \<subseteq> set (wf_pairs s)"
    using set_fold_dict_set [of "wf_pairs s" "[]"] by simp
  have excl: "\<forall>(k, v) \<in> set ?d. \<exists>seg \<in> set (segments s).
      well_formed seg \<and> k = seg_name seg \<and> v = seg_value seg"
    using sub by (auto simp: wf_pairs_def)
  show "\<exists>d. parse_cookies s = Inr d
      \<and> fst ` set d = seg_name ` set (filter well_formed (segments s))
      \<and> (\<forall>(k, v) \<in> set d. \<exists>seg \<in> set (segments s).
            well_formed seg \<and> k = seg_name seg \<and> v = seg_value seg)"
    using parse_cookies_fold [of s] keys excl by blast
next
  show "\<exists>cs. parse_cookie_string unquote s domain = Inr cs
      \<and> map (\<lambda>c. (c_name c, c_value c)) cs
          = map (\<lambda>seg. (seg_name seg, unq unquote (seg_value seg)))
              (filter has_eq (segments s))"
    by (simp add: parse_cookie_string_eq the_cookie_def comp_def)
qed

theorem parse_soft_fail_witness:
  "parse_cookies ''session_id=abc;;junk; cf_clearance=xyz;empty=''
     = Inr [(''session_id'', ''abc''), (''cf_clearance'', ''xyz'')]
   \<and> map (\<lambda>c. (c_name c, c_value c))
       (projr (parse_cookie_string Some ''session_id=abc;;junk; cf_clearance=xyz;empty='' ''h''))
     = [(''session_id'', ''abc''), (''cf_clearance'', ''xyz''), (''empty'', [])]
   \<and> segments ''session_id=abc;;junk; cf_clearance=xyz;empty=''
     = [''session_id=abc'', [], ''junk'', ''cf_clearance=xyz'', ''empty='']
   \<and> filter well_formed (segments ''session_id=abc;;junk; cf_clearance=xyz;empty='')
     = [''session_id=abc'', ''cf_clearance=xyz'']"
  using parse_soft_fail [of "''session_id=abc;;junk; cf_clearance=xyz;empty=''" Some "''h''"]
  by (simp add: parse_cookies_def parse_cookie_string_def strip_eval
      py_in_single split_once_def py_index_def has_eq_def seg_name_def
      seg_value_def well_formed_def segments_def Let_def lower_def lower_char_def)

text \<open>The claim as stated fails: \<open>parse_cookies\<close> leaves out two segments that are
  neither empty nor without an equals sign.\<close>

theorem parse_soft_fail_counterexample:
  "segments ''a=;=b;c=3'' = [''a='', ''=b'', ''c=3'']
   \<and> has_eq ''a='' \<and> has_eq ''=b''
   \<and> parse_cookies ''a=;=b;c=3'' = Inr [(''c'', ''3'')]"
  by (simp add: parse_cookies_def strip_eval py_in_single split_once_def has_eq_def
      segments_def Let_def)

subsection \<open>Duplicate names\<close>

text \<open>
  Claim C8, as amended. \<open>parse_cookies\<close> maps every name to the value of the last
  well-formed segment of that name (a later segment of the name whose value is blank is
  skipped and overwrites nothing), and its names are unique. \<open>parse_cookie_string\<close>
  merges nothing: it returns one cookie for each segment that holds an equals sign, in
  the order of the string, so a name that occurs twice is there twice, its last cookie
  holding the value of its last occurrence.
\<close>

theorem last_write_wins:
  "(\<exists>d. parse_cookies s = Inr d \<and> distinct (map fst d)
        \<and> (\<forall>k. map_of d k = last_value k (wf_pairs s)))
   \<and> (\<exists>cs. parse_cookie_string unquote s domain = Inr cs
        \<and> map (\<lambda>c. (c_name c, c_value c)) cs
            = map (\<lambda>seg. (seg_name seg, unq unquote (seg_value seg))) (filter has_eq (segments s)))"
proof (intro conjI)
  let ?d = "fold (\<lambda>(k, v) d. dict_set d k v) (wf_pairs s) []"
  have "distinct (map fst ?d)" by (rule distinct_fold_dict_set) simp
  moreover have "\<forall>k. map_of ?d k = last_value k (wf_pairs s)"
    by (simp add: map_of_fold_dict_set last_value_map_of)
  ultimately show "\<exists>d. parse_cookies s = Inr d \<and> distinct (map fst d)
        \<and> (\<forall>k. map_of d k = last_value k (wf_pairs s))"
    using parse_cookies_fold [of s] by blast
next
  show "\<exists>cs. parse_cookie_string unquote s domain = Inr cs
        \<and> map (\<lambda>c. (c_name c, c_value c)) cs
            = map (\<lambda>seg. (seg_name seg, unq unquote (seg_value seg))) (filter has_eq (segments s))"
    by (simp add: parse_cookie_string_eq the_cookie_def comp_def)
qed


text \<open>The claim as stated fails: \<open>parse_cookie_string\<close> returns two cookies of one name,
  and \<open>parse_cookies\<close> keeps the earlier value when the last occurrence has none.\<close>

theorem last_write_wins_counterexample:
  "parse_cookie_string Some ''a=1;a=2'' ''h'' = Inr
     [\<lparr>c_name = ''a'', c_value = ''1'', c_domain = ''h'', c_path = ''/'', c_secure = True,
       c_httpOnly = False, c_sameSite = ''Lax''\<rparr>,
      \<lparr>c_name = ''a'', c_value = ''2'', c_domain = ''h'', c_path = ''/'', c_secure = True,
       c_httpOnly = False, c_sameSite = ''Lax''\<rparr>]
   \<and> \<not> distinct [''a'', ''a'']
   \<and> parse_cookies ''a=1;a='' = Inr [(''a'', ''1'')]"
  by (simp add: parse_cookies_def parse_cookie_string_def strip_eval
      py_in_single split_once_def py_index_def Let_def lower_def lower_char_def)

subsection \<open>Round trip\<close>

text \<open>
  Claim C4, as amended. When \<open>save_cookies_for_update\<close> returns a string, and every
  value of the credential set it kept (the cookies named \<open>session_id\<close> and
  \<open>cf_clearance\<close>) is not empty, has no semicolon and neither begins nor ends with
  white space (any character that \<open>str.strip\<close> removes), \<open>parse_cookies\<close> of that string
  is that credential set, names, values and order.
\<close>

theorem round_trip:
  assumes "save_cookies_for_update (Some cookies) = Some str"
    and "\<forall>(k, v) \<in> set (important_cookies cookies []). clean_value v"
  shows "parse_cookies str = Inr (important_cookies cookies [])"
proof -
  let ?s = "important_cookies cookies []"
  from assms(1) have str: "str = serialize_cookies ?s"
    by (auto simp: save_cookies_for_update_def Let_def split: if_splits)
  have "distinct (map fst ?s)" by (rule important_cookies_distinct) simp
  moreover have "\<forall>(k, v) \<in> set ?s. k \<in> {''session_id'', ''cf_clearance''} \<and> clean_value v"
    using important_cookies_keys [of cookies "[]"] assms(2) by fastforce
  ultimately show ?thesis unfolding str by (rule parse_serialize)
qed



theorem round_trip_witness:
  "save_cookies_for_update
     (Some [(''session_id'', ''abc''), (''_ga'', ''GA1''), (''cf_clearance'', ''xyz'')])
     = Some ''session_id=abc; cf_clearance=xyz''
   \<and> parse_cookies ''session_id=abc; cf_clearance=xyz''
     = Inr [(''session_id'', ''abc''), (''cf_clearance'', ''xyz'')]"
proof -
  let ?cookies = "[(''session_id'', ''abc''), (''_ga'', ''GA1''), (''cf_clearance'', ''xyz'')]"
  have s: "save_cookies_for_update (Some ?cookies) = Some ''session_id=abc; cf_clearance=xyz''"
    by (simp add: save_cookies_for_update_def serialize_cookies_def)
  have c: "\<forall>(k, v) \<in> set (important_cookies ?cookies []). clean_value v"
    by (simp add: clean_value_def strip_eval)
  show ?thesis using s round_trip [OF s c] by simp
qed

text \<open>The claim as stated fails for an empty value, for a value with a semicolon and
  for a value that ends with a blank.\<close>

theorem round_trip_counterexample:
  "save_cookies_for_update (Some [(''session_id'', [])]) = Some ''session_id=''
   \<and> parse_cookies ''session_id='' = Inr []
   \<and> save_cookies_for_update (Some [(''session_id'', ''a;b'')]) = Some ''session_id=a;b''
   \<and> parse_cookies ''session_id=a;b'' = Inr [(''session_id'', ''a'')]
   \<and> save_cookies_for_update (Some [(''session_id'', ''a '')]) = Some ''session_id=a ''
   \<and> parse_cookies ''session_id=a '' = Inr [(''session_id'', ''a'')]"
  by (simp add: save_cookies_for_update_def serialize_cookies_def parse_cookies_def
      strip_eval py_in_single split_once_def Let_def)

section \<open>Properties of the outcome classifier\<close>

lemma api_tier_return_success:
  "api_tier rs r0 = Return r \<Longrightarrow> res_status r = St_success \<Longrightarrow> list_ex api_success rs"
proof (induction rs arbitrary: r0)
  case Nil
  then show ?case by simp
next
  case (Cons resp rest)
  show ?case
  proof (cases "api_success resp")
    case True
    then show ?thesis by simp
  next
    case False
    with Cons.prems have "api_tier rest (r0\<lparr>res_api_status := Some (r_status resp)\<rparr>) = Return r"
      by (auto simp: Let_def api_success_def split: if_splits sum.splits)
    from Cons.IH [OF this Cons.prems(2)] show ?thesis by simp
  qed
qed

lemma api_tier_exhausted_status:
  "api_tier rs r0 = Exhausted r \<Longrightarrow> res_status r = res_status r0"
  by (induction rs arbitrary: r0) (auto simp: Let_def split: if_splits sum.splits)

lemma api_tier_caught_status:
  "api_tier rs r0 = Caught e r \<Longrightarrow> res_status r = res_status r0"
  by (induction rs arbitrary: r0) (auto simp: Let_def split: if_splits sum.splits)

lemma toast_scan_success:
  "toast_scan toasts = Some ''SUCCESS'' \<Longrightarrow> list_ex (\<lambda>t. py_in ''success'' t \<and> py_in ''renew'' t) toasts"
  by (induction toasts) (auto split: if_splits)

lemma page_script_success:
  "page_script bodyText toasts = Some ''SUCCESS'' \<Longrightarrow> page_success (Some (bodyText, toasts))"
  by (auto simp: page_script_def page_success_def dest: toast_scan_success split: if_splits)

lemma dom_tier_success:
  "res_status (dom_tier page r) = St_success \<Longrightarrow> res_status r = St_success \<or> page_success page"
  by (cases page) (auto simp: dom_tier_def dest: page_script_success split: option.splits if_splits)

lemma renewal_needs_evidence:
  assumes "\<not> list_ex api_success api_responses" and "\<not> page_success page"
  shows "res_status (check_renewal_result api_responses page) \<noteq> St_success"
proof
  assume s: "res_status (check_renewal_result api_responses page) = St_success"
  let ?init = "\<lparr>res_status = St_unknown, res_message = Text [], res_api_status = None\<rparr>"
  from assms(1) have no: "\<not> list_ex api_success (rev api_responses)" by (simp add: list_ex_iff)
  show False
  proof (cases "api_tier (rev api_responses) ?init")
    case (Return r)
    with s have "res_status r = St_success" by (simp add: check_renewal_result_def)
    from api_tier_return_success [OF Return this] no show False by simp
  next
    case (Exhausted r)
    with s have "res_status (dom_tier page r) = St_success" by (simp add: check_renewal_result_def)
    moreover from api_tier_exhausted_status [OF Exhausted] have "res_status r = St_unknown" by simp
    ultimately show False using dom_tier_success [of page r] assms(2) by simp
  next
    case (Caught e r)
    with s have "res_status (dom_tier page r) = St_success" by (simp add: check_renewal_result_def)
    moreover from api_tier_caught_status [OF Caught] have "res_status r = St_unknown" by simp
    ultimately show False using dom_tier_success [of page r] assms(2) by simp
  qed
qed

lemma tag_prefixes:
  "\<not> prefix tag_success (tag_skipped @ s)" "\<not> prefix tag_success (tag_warning @ s)"
  "\<not> prefix tag_success (tag_unknown @ s)"
  by (simp_all add: tag_success_def tag_skipped_def tag_warning_def tag_unknown_def)

lemma popup_loop_success:
  "popup_loop popup_of display_name sels = Inr (Some r) \<Longrightarrow> prefix tag_success r
   \<Longrightarrow> list_ex (\<lambda>sel. case popup_of sel of
                       Popup_text raw \<Rightarrow> py_in txt_checked_in (strip (py_replace txt_cross [] raw))
                     | _ \<Rightarrow> False) sels"
proof (induction sels)
  case Nil
  then show ?case by simp
next
  case (Cons sel sels)
  show ?case
  proof (cases "popup_of sel")
    case Wait_timeout
    with Cons show ?thesis by simp
  next
    case Driver_raises
    with Cons.prems show ?thesis by simp
  next
    case (Popup_text raw)
    with Cons show ?thesis
      by (auto simp: Let_def tag_prefixes split: if_splits)
  qed
qed

lemma checkin_needs_evidence:
  assumes "\<not> popup_success popup_of" and "\<not> source_success page_source"
    and "get_checkin_result popup_of page_source display_name = Inr r"
  shows "\<not> prefix tag_success r"
proof
  assume p: "prefix tag_success r"
  show False
  proof (cases "popup_loop popup_of display_name alert_selectors")
    case (Inl e)
    with assms(3) show False by (simp add: get_checkin_result_def)
  next
    case (Inr found)
    show False
    proof (cases found)
      case (Some r')
      with Inr assms(3) have "r' = r" by (simp add: get_checkin_result_def)
      with Inr Some popup_loop_success [of popup_of display_name alert_selectors r] p assms(1)
      show False by (simp add: popup_success_def)
    next
      case None
      with Inr assms(3) assms(2) p show False
        by (auto simp: get_checkin_result_def source_success_def tag_prefixes
            split: option.splits if_splits)
    qed
  qed
qed

lemma empty_checkin:
  "get_checkin_result (\<lambda>sel. Wait_timeout) (Some []) display_name
     = Inr (tag_unknown @ '' '' @ display_name @ '' '' @ txt_state_unknown)"
  by (simp add: get_checkin_result_def alert_selectors_def txt_checked_in_def txt_consecutive_def
      txt_already_b_def)

lemma empty_renewal:
  "res_status (check_renewal_result [] (Some ([], []))) = St_unknown"
  "res_status (check_renewal_result [] None) = St_unknown"
  by (simp_all add: check_renewal_result_def dom_tier_def page_script_def)


text \<open>
  Claim C1. No silent success. When no captured response has status 200 with the \<open>ok\<close>
  flag and neither the text of the page nor a toast holds a success phrase,
  \<open>check_renewal_result\<close> does not return the status \<open>success\<close>; when no popup text and
  not the source of the page holds the phrase for a check-in, no result that
  \<open>_get_checkin_result\<close> returns begins with the success tag. With no evidence at all
  (no response and an empty page or none; no popup and an empty source) the result is
  \<open>unknown\<close>.
\<close>

theorem no_silent_success:
  "(\<not> list_ex api_success api_responses \<and> \<not> page_success page
      \<longrightarrow> res_status (check_renewal_result api_responses page) \<noteq> St_success)
   \<and> (\<not> popup_success popup_of \<and> \<not> source_success page_source
        \<and> get_checkin_result popup_of page_source display_name = Inr r
      \<longrightarrow> \<not> prefix tag_success r)
   \<and> res_status (check_renewal_result [] (Some ([], []))) = St_unknown
   \<and> res_status (check_renewal_result [] None) = St_unknown
   \<and> get_checkin_result (\<lambda>sel. Wait_timeout) (Some []) display_name
       = Inr (tag_unknown @ '' '' @ display_name @ '' '' @ txt_state_unknown)"
  using renewal_needs_evidence [of api_responses page]
    checkin_needs_evidence [of popup_of page_source display_name r]
    empty_renewal empty_checkin [of display_name]
  by blast

theorem no_silent_success_witness:
  "\<not> list_ex api_success
       [\<lparr>r_status = 400, r_ok = False, r_data = Dict_data (Some (Text ''Cannot exceed 7 days''))\<rparr>]
   \<and> \<not> page_success (Some (''Free Plans'', [''Cannot exceed 7 days'']))
   \<and> res_status (check_renewal_result
        [\<lparr>r_status = 400, r_ok = False, r_data = Dict_data (Some (Text ''Cannot exceed 7 days''))\<rparr>]
        (Some (''Free Plans'', [''Cannot exceed 7 days'']))) = St_limit_reached
   \<and> \<not> popup_success (\<lambda>sel. Popup_text ''Network error'')
   \<and> \<not> source_success (Some ''<html></html>'')
   \<and> get_checkin_result (\<lambda>sel. Popup_text ''Network error'') (Some ''<html></html>'') ''a***e''
       = Inr (tag_warning @ '' a***e Network error'')
   \<and> \<not> prefix tag_success (tag_warning @ '' a***e Network error'')"
  using no_silent_success
    [of "[\<lparr>r_status = 400, r_ok = False, r_data = Dict_data (Some (Text ''Cannot exceed 7 days''))\<rparr>]"
        "Some (''Free Plans'', [''Cannot exceed 7 days''])"
        "\<lambda>sel. Popup_text ''Network error''" "Some ''<html></html>''" "''a***e''"
        "tag_warning @ '' a***e Network error''"]
  by (simp add: api_success_def page_success_def check_renewal_result_def Let_def message_of_def
      message_lower_def lower_def lower_char_def popup_success_def source_success_def
      alert_selectors_def get_checkin_result_def py_replace_def txt_cross_def txt_checked_in_def
      txt_already_a_def txt_already_b_def strip_eval
      tag_success_def tag_warning_def)

lemma py_in_sublist: "py_in needle s = sublist needle s"
  by (induction s) (simp_all add: sublist_Cons_right)

lemma exceed_in_phrase: "py_in ''cannot exceed 7 days'' s \<Longrightarrow> py_in ''exceed'' s"
proof -
  have "sublist ''exceed'' (''cannot '' @ ''exceed'' @ '' 7 days'')" by (rule sublist_appendI)
  then have "sublist ''exceed'' ''cannot exceed 7 days''" by simp
  moreover assume "py_in ''cannot exceed 7 days'' s"
  ultimately show ?thesis
    unfolding py_in_sublist by (rule sublist_order.order.trans)
qed

lemma api_tier_decided:
  assumes "find decides rs = Some resp" and "r_status resp = 400 \<longrightarrow> text_message resp"
  shows "\<exists>r. api_tier rs r0 = Return r \<and> res_status r = mapped_status resp
            \<and> res_api_status r = Some (r_status resp)"
  using assms
proof (induction rs arbitrary: r0)
  case Nil
  then show ?case by simp
next
  case (Cons a rs)
  show ?case
  proof (cases "decides a")
    case True
    with Cons.prems have a: "a = resp" by simp
    show ?thesis
    proof (cases "message_of (r_data resp)")
      case (Text s)
      with True a show ?thesis
        by (auto simp: Let_def decides_def mapped_status_def message_lower_def
            dest: exceed_in_phrase)
    next
      case (Non_text t)
      with Cons.prems(2) have "r_status resp \<noteq> 400" by (simp add: text_message_def)
      with True a Non_text show ?thesis
        by (auto simp: Let_def decides_def mapped_status_def message_lower_def)
    qed
  next
    case False
    with Cons.prems have f: "find decides rs = Some resp" by simp
    from False have "api_tier (a # rs) r0 = api_tier rs (r0\<lparr>res_api_status := Some (r_status a)\<rparr>)"
      by (auto simp: Let_def decides_def)
    with Cons.IH [OF f Cons.prems(2)] show ?thesis by simp
  qed
qed

lemma api_tier_undecided:
  "find decides rs = None \<Longrightarrow> \<exists>r. api_tier rs r0 = Exhausted r \<and> res_status r = res_status r0
      \<and> res_message r = res_message r0"
proof (induction rs arbitrary: r0)
  case Nil
  then show ?case by simp
next
  case (Cons a rs)
  then have nd: "\<not> decides a" and f: "find decides rs = None" by (auto split: if_splits)
  from nd have "api_tier (a # rs) r0 = api_tier rs (r0\<lparr>res_api_status := Some (r_status a)\<rparr>)"
    by (auto simp: Let_def decides_def)
  with Cons.IH [OF f, of "r0\<lparr>res_api_status := Some (r_status a)\<rparr>"] show ?case by simp
qed

lemma dom_tier_status_message:
  "res_status r = res_status r' \<Longrightarrow> res_status (dom_tier page r) = res_status (dom_tier page r')"
  by (cases page) (auto simp: dom_tier_def split: option.splits)


text \<open>
  Claim C2, as amended. A captured response decides when it has status 200 with the
  \<open>ok\<close> flag or a status from 400 on. When some captured response decides and the most
  recent deciding one, if its status is 400, has a text as its message, the result is
  that of the structured-response mapping on that response (status 200 with the \<open>ok\<close>
  flag is a success; status 400 with a message that holds \<open>exceed\<close>, in any case of
  its letters, is the limit; any other status from 400 on is an error), whatever the text
  of the page: the page is not consulted. When no captured response decides, the text of
  the page gives the result, as it does with no response at all. A response of status
  400 whose message is not a text is left out.
\<close>

theorem structured_dominance:
  "(find decides (rev api_responses) = Some resp \<and> (r_status resp = 400 \<longrightarrow> text_message resp)
      \<longrightarrow> check_renewal_result api_responses page = check_renewal_result api_responses None
        \<and> res_status (check_renewal_result api_responses page) = mapped_status resp
        \<and> res_api_status (check_renewal_result api_responses page) = Some (r_status resp))
   \<and> (find decides (rev api_responses) = None
      \<longrightarrow> res_status (check_renewal_result api_responses page)
          = res_status (check_renewal_result [] page))"
proof (intro conjI impI)
  let ?init = "\<lparr>res_status = St_unknown, res_message = Text [], res_api_status = None\<rparr>"
  assume a: "find decides (rev api_responses) = Some resp \<and> (r_status resp = 400 \<longrightarrow> text_message resp)"
  then obtain r where r: "api_tier (rev api_responses) ?init = Return r"
    "res_status r = mapped_status resp" "res_api_status r = Some (r_status resp)"
    using api_tier_decided [of "rev api_responses" resp ?init] by blast
  then show "check_renewal_result api_responses page = check_renewal_result api_responses None"
    "res_status (check_renewal_result api_responses page) = mapped_status resp"
    "res_api_status (check_renewal_result api_responses page) = Some (r_status resp)"
    by (simp_all add: check_renewal_result_def)
next
  let ?init = "\<lparr>res_status = St_unknown, res_message = Text [], res_api_status = None\<rparr>"
  assume "find decides (rev api_responses) = None"
  then obtain r where r: "api_tier (rev api_responses) ?init = Exhausted r"
    "res_status r = St_unknown"
    using api_tier_undecided [of "rev api_responses" ?init] by auto
  then show "res_status (check_renewal_result api_responses page)
          = res_status (check_renewal_result [] page)"
    using dom_tier_status_message [of r ?init page] by (simp add: check_renewal_result_def)
qed


theorem structured_dominance_witness:
  "find decides (rev [\<lparr>r_status = 400, r_ok = False,
                       r_data = Dict_data (Some (Text ''cannot exceed 7 days''))\<rparr>])
     = Some \<lparr>r_status = 400, r_ok = False, r_data = Dict_data (Some (Text ''cannot exceed 7 days''))\<rparr>
   \<and> text_message \<lparr>r_status = 400, r_ok = False,
                     r_data = Dict_data (Some (Text ''cannot exceed 7 days''))\<rparr>
   \<and> res_status (check_renewal_result
        [\<lparr>r_status = 400, r_ok = False, r_data = Dict_data (Some (Text ''cannot exceed 7 days''))\<rparr>]
        (Some (''renewed successfully'', []))) = St_limit_reached
   \<and> find decides (rev [\<lparr>r_status = 204, r_ok = True, r_data = Dict_data None\<rparr>]) = None
   \<and> res_status (check_renewal_result [\<lparr>r_status = 204, r_ok = True, r_data = Dict_data None\<rparr>]
        (Some (''renewed successfully'', []))) = St_success"
  using structured_dominance
    [of "[\<lparr>r_status = 400, r_ok = False, r_data = Dict_data (Some (Text ''cannot exceed 7 days''))\<rparr>]"
        "\<lparr>r_status = 400, r_ok = False, r_data = Dict_data (Some (Text ''cannot exceed 7 days''))\<rparr>"
        "Some (''renewed successfully'', [])"]
    structured_dominance
    [of "[\<lparr>r_status = 204, r_ok = True, r_data = Dict_data None\<rparr>]" _
        "Some (''renewed successfully'', [])"]
  by (simp add: decides_def text_message_def message_of_def mapped_status_def lower_def
      lower_char_def check_renewal_result_def dom_tier_def page_script_def Let_def
      message_lower_def)

text \<open>The claim as stated fails: with a captured response of status 204, which is
  outside the mapping, the text of the page gives the result, and two pages give two
  results; and a response of status 400 whose message speaks of a limit without the word
  \<open>exceed\<close> is an error, not the limit.\<close>

theorem structured_dominance_counterexample:
  "res_status (check_renewal_result
        [\<lparr>r_status = 204, r_ok = True, r_data = Dict_data None\<rparr>]
        (Some (''Server renewed successfully'', []))) = St_success
   \<and> res_status (check_renewal_result
        [\<lparr>r_status = 204, r_ok = True, r_data = Dict_data None\<rparr>]
        (Some (''weekly limit reached'', []))) = St_limit_reached
   \<and> res_status (check_renewal_result
        [\<lparr>r_status = 400, r_ok = False,
          r_data = Dict_data (Some (Text ''Weekly renewal limit reached''))\<rparr>]
        None) = St_error"
  by (simp add: check_renewal_result_def Let_def message_of_def message_lower_def dom_tier_def
      page_script_def lower_def lower_char_def message_or_def)

text \<open>A response of status 400 whose message is not a text: \<open>message.lower()\<close> raises,
  the \<open>except\<close> of the first tier catches it, and the text of the page gives the
  result.\<close>

lemma non_text_message_falls_through:
  "check_renewal_result
     [\<lparr>r_status = 400, r_ok = False, r_data = Dict_data (Some (Non_text False))\<rparr>]
     (Some (''Renewal successful'', []))
   = \<lparr>res_status = St_success, res_message = Text txt_renewed, res_api_status = Some 400\<rparr>"
  by (simp add: check_renewal_result_def Let_def message_of_def message_lower_def dom_tier_def
      page_script_def)

section \<open>Properties of the challenge handler\<close>

lemma turnstile_loop_bounds:
  "detections (turnstile_loop obs as run) \<le> detections run + length as
   \<and> interactions (turnstile_loop obs as run) - interactions run
       \<le> detections (turnstile_loop obs as run) - detections run
   \<and> interactions run \<le> interactions (turnstile_loop obs as run)
   \<and> detections run \<le> detections (turnstile_loop obs as run)"
proof (induction as arbitrary: run)
  case Nil
  show ?case by simp
next
  case (Cons a as)
  let ?r1 = "run\<lparr>detections := detections run + 1\<rparr>"
  let ?r2 = "?r1\<lparr>interactions := interactions ?r1 + 1\<rparr>"
  from Cons.IH [of ?r1] Cons.IH [of ?r2]
  show ?case
    by (auto simp: Let_def split: option.splits bool.splits)
qed

lemma turnstile_loop_passed:
  "passed (turnstile_loop obs as run) = list_ex (\<lambda>i. confirms (obs i)) as"
  by (induction as arbitrary: run)
     (auto simp: Let_def confirms_def split: option.splits bool.splits)

lemma turnstile_loop_exhausted:
  "\<not> list_ex (\<lambda>i. confirms (obs i)) as
   \<Longrightarrow> detections (turnstile_loop obs as run) = detections run + length as"
  by (induction as arbitrary: run)
     (auto simp: Let_def confirms_def split: option.splits bool.splits)

lemma turnstile_first_absent:
  assumes "0 < max_attempts" and "has_turnstile (obs 0) = Some False"
  shows "handle_turnstile obs max_attempts = \<lparr>passed = True, detections = 1, interactions = 0\<rparr>"
proof -
  from assms(1) have "[0..<nat max_attempts] = 0 # [1..<nat max_attempts]"
    by (simp add: upt_conv_Cons)
  with assms(2) show ?thesis by (simp add: handle_turnstile_def)
qed


text \<open>
  Claim C9. \<open>handle_turnstile(sb, max_attempts)\<close> returns \<open>True\<close> at once, after one
  detection and no interaction, when the detection finds no challenge marker. In every
  case it makes at most \<open>max_attempts\<close> detections and at most as many interactions;
  it returns a truth value for every behaviour of the page, the raises of its scripts
  included, \<open>True\<close> exactly when some attempt confirms; and when no attempt confirms it
  returns \<open>False\<close> after \<open>max_attempts\<close> detections.
\<close>

theorem turnstile_contract:
  "(0 < max_attempts \<and> has_turnstile (obs 0) = Some False
      \<longrightarrow> handle_turnstile obs max_attempts = \<lparr>passed = True, detections = 1, interactions = 0\<rparr>)
   \<and> detections (handle_turnstile obs max_attempts) \<le> nat max_attempts
   \<and> interactions (handle_turnstile obs max_attempts) \<le> detections (handle_turnstile obs max_attempts)
   \<and> passed (handle_turnstile obs max_attempts)
       = list_ex (\<lambda>i. confirms (obs i)) [0..<nat max_attempts]
   \<and> (\<not> list_ex (\<lambda>i. confirms (obs i)) [0..<nat max_attempts]
      \<longrightarrow> \<not> passed (handle_turnstile obs max_attempts)
        \<and> detections (handle_turnstile obs max_attempts) = nat max_attempts)"
  using turnstile_first_absent [of max_attempts obs]
    turnstile_loop_bounds [of obs "[0..<nat max_attempts]" "\<lparr>passed = False, detections = 0, interactions = 0\<rparr>"]
    turnstile_loop_passed [of obs "[0..<nat max_attempts]" "\<lparr>passed = False, detections = 0, interactions = 0\<rparr>"]
    turnstile_loop_exhausted [of obs "[0..<nat max_attempts]" "\<lparr>passed = False, detections = 0, interactions = 0\<rparr>"]
  by (simp add: handle_turnstile_def)


theorem turnstile_contract_witness:
  "(0::int) < 6 \<and> has_turnstile absent_attempt = Some False
   \<and> handle_turnstile (\<lambda>i. absent_attempt) 6 = \<lparr>passed = True, detections = 1, interactions = 0\<rparr>
   \<and> \<not> confirms stuck_attempt
   \<and> \<not> passed (handle_turnstile (\<lambda>i. stuck_attempt) 6)
   \<and> detections (handle_turnstile (\<lambda>i. stuck_attempt) 6) = 6"
proof -
  have a: "(0::int) < 6 \<and> has_turnstile ((\<lambda>i. absent_attempt) (0::nat)) = Some False"
    by (simp add: absent_attempt_def)
  have c: "\<not> confirms stuck_attempt" by (simp add: confirms_def stuck_attempt_def)
  then have s: "\<not> list_ex (\<lambda>i. confirms ((\<lambda>i. stuck_attempt) i)) [0..<nat 6]"
    by (simp add: list_ex_iff)
  from a c turnstile_contract [of 6 "\<lambda>i. absent_attempt"] s turnstile_contract [of 6 "\<lambda>i. stuck_attempt"]
  show ?thesis by simp
qed

section \<open>Properties of the renewal run\<close>
















text \<open>
  Claim C5. When the session page is read at a URL that contains \<open>/login\<close> or
  \<open>/register\<close>, whatever markers the page shows, the run ends with status 1 and no
  stage of the renewal loop is executed (no trigger click, no handling of the modal, no
  renewal request); when the run has reached the verification of the login, the last
  thing it does is to send the notification of a failed login, after at most the
  injection of the session cookie.
\<close>

theorem auth_failed_aborts:
  assumes "login_view env = Some (url, pg)"
    and "py_in ''/login'' url \<or> py_in ''/register'' url"
  shows "exit_code (main env) = 1
    \<and> \<not> list_ex loop_stage (events (main env))
    \<and> (reaches_verify_login env \<longrightarrow>
         (\<exists>evs. set evs \<subseteq> {Inject_session_cookie}
                \<and> events (main env) = evs @ [Notify False Login_failed]))"
proof -
  from assms have nl: "\<not> check_login_status (login_view env)"
    by (auto simp: check_login_status_def)
  obtain cookies where p: "parse_cookies (cookies_str env) = Inr cookies"
    using parse_cookies_fold [of "cookies_str env"] by blast
  let ?evs = "case find (\<lambda>c. fst c = ''session_id'') cookies of None \<Rightarrow> [] | Some c \<Rightarrow> [Inject_session_cookie]"
  have e: "set ?evs \<subseteq> {Inject_session_cookie}" "\<not> list_ex loop_stage ?evs"
    by (auto split: option.splits)
  from nl p e(2) have "exit_code (main env) = 1" "\<not> list_ex loop_stage (events (main env))"
    by (simp_all add: main_def Let_def crash_def)
  moreover from nl p have "reaches_verify_login env \<longrightarrow> events (main env) = ?evs @ [Notify False Login_failed]"
    by (simp add: main_def Let_def reaches_verify_login_def)
  ultimately show ?thesis using e(1) by blast
qed


theorem auth_failed_aborts_witness:
  "login_view login_redirect_env
     = Some (''https://billing.kerit.cloud/login'',
             Some \<lparr>has_logout_link = False, has_free_panel_link = False, body_text = ''Sign in''\<rparr>)
   \<and> py_in ''/login'' ''https://billing.kerit.cloud/login''
   \<and> reaches_verify_login login_redirect_env
   \<and> exit_code (main login_redirect_env) = 1
   \<and> events (main login_redirect_env) = [Inject_session_cookie, Notify False Login_failed]"
proof -
  have v: "login_view login_redirect_env
     = Some (''https://billing.kerit.cloud/login'',
             Some \<lparr>has_logout_link = False, has_free_panel_link = False, body_text = ''Sign in''\<rparr>)"
    by (simp add: login_redirect_env_def)
  have u: "py_in ''/login'' ''https://billing.kerit.cloud/login''
           \<or> py_in ''/register'' ''https://billing.kerit.cloud/login''" by simp
  have ev: "events (main login_redirect_env) = [Inject_session_cookie, Notify False Login_failed]"
    by (simp add: main_def login_redirect_env_def parse_cookies_def strip_eval
        py_in_single split_once_def Let_def truthy_def
        check_login_status_def)
  have rv: "reaches_verify_login login_redirect_env"
    by (simp add: reaches_verify_login_def login_redirect_env_def truthy_def)
  from auth_failed_aborts [OF v u] v ev rv show ?thesis by simp
qed


section \<open>Properties of the exit status\<close>

lemma server_loop_interrupted:
  "list_ex pause_interrupts svs \<Longrightarrow> server_loop svs acc = Inl BrowserError"
proof (induction svs arbitrary: acc)
  case Nil
  then show ?case by simp
next
  case (Cons s svs)
  obtain sc fc res where acc: "acc = (sc, fc, res)" by (cases acc)
  obtain ok line where p: "process_server s = (ok, line)" by (cases "process_server s")
  show ?case
  proof (cases "pause_interrupts s")
    case True
    with p show ?thesis by (simp add: acc pause_interrupts_def)
  next
    case False
    with Cons.prems have "list_ex pause_interrupts svs" by simp
    from Cons.IH [OF this] False p show ?thesis
      by (auto simp: acc pause_interrupts_def)
  qed
qed

lemma server_loop_counts:
  "\<not> list_ex pause_interrupts svs \<Longrightarrow>
   server_loop svs (sc, fc, res) =
     Inr (sc + length (filter server_ok svs),
          fc + length (filter (\<lambda>s. \<not> server_ok s) svs),
          res @ map (\<lambda>s. snd (process_server s)) svs)"
proof (induction svs arbitrary: sc fc res)
  case Nil
  show ?case by simp
next
  case (Cons s svs)
  obtain ok line where p: "process_server s = (ok, line)" by (cases "process_server s")
  from Cons.prems have n: "\<not> pause_interrupts s" "\<not> list_ex pause_interrupts svs"
    by simp_all
  from n(1) p have np: "\<not> (reaches_pause line \<and> pause_raises s)"
    by (simp add: pause_interrupts_def)
  show ?case using Cons.IH [OF n(2)] np p by (cases ok) (auto simp: server_ok_def)
qed

lemma run_class_cases:
  "run_class_of (map server_ok svs) = All_succeeded \<longleftrightarrow> filter (\<lambda>s. \<not> server_ok s) svs = []"
  "svs \<noteq> [] \<Longrightarrow> run_class_of (map server_ok svs) = All_targets_failed
     \<longleftrightarrow> filter server_ok svs = []"
  by (auto simp: run_class_of_def list_all_iff list_ex_iff filter_empty_conv neq_Nil_conv)

lemma panel_exit:
  "p_exit (panel_main env) =
     (if panel_completes env
      then (case run_class_of (map server_ok (servers env)) of
              All_succeeded \<Rightarrow> 0
            | Partial_success \<Rightarrow> 0
            | All_targets_failed \<Rightarrow> 1)
      else 1)"
proof (cases "panel_completes env")
  case True
  then have ne: "servers env \<noteq> []" and ni: "\<not> list_ex pause_interrupts (servers env)"
    by (simp_all add: panel_completes_def)
  have loop: "server_loop (servers env) (0, 0, []) =
      Inr (length (filter server_ok (servers env)),
           length (filter (\<lambda>s. \<not> server_ok s) (servers env)),
           map (\<lambda>s. snd (process_server s)) (servers env))"
    using server_loop_counts [OF ni, of 0 0 "[]"] by simp
  show ?thesis
  proof (cases "run_class_of (map server_ok (servers env))")
    case All_succeeded
    with True loop run_class_cases(1) [of "servers env"] show ?thesis
      by (simp add: panel_main_def panel_completes_def)
  next
    case Partial_success
    with run_class_cases(1) [of "servers env"] run_class_cases(2) [OF ne]
    have "filter (\<lambda>s. \<not> server_ok s) (servers env) \<noteq> []" "filter server_ok (servers env) \<noteq> []"
      by simp_all
    with True loop Partial_success show ?thesis
      by (simp add: panel_main_def panel_completes_def)
  next
    case All_targets_failed
    with run_class_cases(1) [of "servers env"] run_class_cases(2) [OF ne]
    have "filter (\<lambda>s. \<not> server_ok s) (servers env) \<noteq> []" "filter server_ok (servers env) = []"
      by simp_all
    with True loop All_targets_failed show ?thesis
      by (simp add: panel_main_def panel_completes_def)
  qed
next
  case False
  show ?thesis
  proof (cases "list_ex pause_interrupts (servers env)")
    case True
    from server_loop_interrupted [OF True, of "(0, 0, [])"] False show ?thesis
      by (simp add: panel_main_def Let_def split: session_result.splits)
  next
    case ni: False
    with False show ?thesis
      by (auto simp: panel_main_def panel_completes_def Let_def split: session_result.splits)
  qed
qed

lemma data_online_exit:
  "\<not> raises_after_login env \<Longrightarrow>
   data_online_main env =
     (if online_completes env
         \<and> (login env = Some Login_disabled \<or> login env = Some Login_wrong_password
             \<or> (login env = Some Login_success \<and> after_login env = Command_sent))
      then 0 else 1)"
  by (auto simp: data_online_main_def online_completes_def raises_after_login_def
      final_status_of_def Let_def split: option.splits login_result.splits terminal_result.splits)

lemma process_account_returns:
  "browser ob \<noteq> Start_raises \<Longrightarrow> \<exists>r. process_account username idx ob = Inr r"
  by (cases "browser ob") (auto simp: process_account_def Let_def split: option.splits)

lemma account_loop_crashes:
  "list_ex (\<lambda>a. browser (snd a) = Start_raises) accs \<Longrightarrow> account_loop accs idx acc = Inl BrowserError"
proof (induction accs arbitrary: idx acc)
  case Nil
  then show ?case by simp
next
  case (Cons a accs)
  obtain username ob where a: "a = (username, ob)" by (cases a)
  obtain sc fc where acc: "acc = (sc, fc)" by (cases acc)
  show ?case
  proof (cases "browser ob = Start_raises")
    case True
    then show ?thesis by (simp add: a acc process_account_def)
  next
    case False
    with Cons.prems a have "list_ex (\<lambda>a. browser (snd a) = Start_raises) accs" by simp
    moreover from process_account_returns [OF False] obtain r
      where "process_account username idx ob = Inr r" by blast
    ultimately show ?thesis using Cons.IH by (simp add: a acc)
  qed
qed

lemma account_loop_returns:
  "\<not> list_ex (\<lambda>a. browser (snd a) = Start_raises) accs \<Longrightarrow> \<exists>c. account_loop accs idx acc = Inr c"
proof (induction accs arbitrary: idx acc)
  case Nil
  show ?case by simp
next
  case (Cons a accs)
  obtain username ob where a: "a = (username, ob)" by (cases a)
  obtain sc fc where acc: "acc = (sc, fc)" by (cases acc)
  from Cons.prems a have b: "browser ob \<noteq> Start_raises"
    and rest: "\<not> list_ex (\<lambda>a. browser (snd a) = Start_raises) accs" by simp_all
  from process_account_returns [OF b] obtain r where r: "process_account username idx ob = Inr r"
    by blast
  show ?case using Cons.IH [OF rest] by (simp add: a acc r)
qed

lemma nodeloc_exit: "n_exit (nodeloc_main env) = (if nodeloc_crashes env then 1 else 0)"
proof (cases "accounts env")
  case None
  then show ?thesis by (simp add: nodeloc_main_def nodeloc_crashes_def)
next
  case (Some accs)
  show ?thesis
  proof (cases "list_ex (\<lambda>a. browser (snd a) = Start_raises) accs")
    case True
    with Some account_loop_crashes [OF True, of 1 "(0, 0)"] show ?thesis
      by (auto simp: nodeloc_main_def nodeloc_crashes_def)
  next
    case False
    from account_loop_returns [OF False, of 1 "(0, 0)"] obtain c
      where "account_loop accs 1 (0, 0) = Inr c" by blast
    with Some False show ?thesis
      by (simp add: nodeloc_main_def nodeloc_crashes_def)
  qed
qed

text \<open>
  Claim C6, as amended. The exit code of a run is 0 or 1 and separates two classes of
  runs, not three. The panel script: a run that completes (the output directory is made,
  the cookies are set, the browser starts and closes, the session is logged in, there is
  a server, and no pause between servers raises) ends with status 0 when all servers
  succeeded and also when only part of them did, and with status 1 when all failed; the
  three cases differ in the title of the notification only; every run that does not
  complete ends with status 1. The terminal script ends with status 0 for a disabled
  account, for a wrong password and for a successful login followed by the sending of the
  command, and with status 1 when a setting is missing, the browser does not start or
  close, the login fails, times out or raises, or the terminal page redirects to the
  login; a run in which a step raises after a successful login is left out. The check-in
  script ends with status 0 whenever \<open>main\<close> returns, whatever the counts of successes
  and failures, and with status 1 only when an exception leaves \<open>main\<close>: the screenshot
  directory cannot be made, or the browser of an account cannot start.
\<close>

theorem exit_status_surface:
  "p_exit (panel_main penv) =
     (if panel_completes penv
      then (case run_class_of (map server_ok (servers penv)) of
              All_succeeded \<Rightarrow> 0
            | Partial_success \<Rightarrow> 0
            | All_targets_failed \<Rightarrow> 1)
      else 1)
   \<and> (\<not> raises_after_login oenv \<longrightarrow>
        data_online_main oenv =
          (if online_completes oenv
              \<and> (login oenv = Some Login_disabled \<or> login oenv = Some Login_wrong_password
                  \<or> (login oenv = Some Login_success \<and> after_login oenv = Command_sent))
           then 0 else 1))
   \<and> n_exit (nodeloc_main nenv) = (if nodeloc_crashes nenv then 1 else 0)"
  using panel_exit [of penv] data_online_exit [of oenv] nodeloc_exit [of nenv] by blast

theorem exit_status_surface_witness:
  "panel_completes part_done_env
   \<and> run_class_of (map server_ok (servers part_done_env)) = Partial_success
   \<and> p_exit (panel_main part_done_env) = 0
   \<and> \<not> raises_after_login disabled_account_env
   \<and> online_completes disabled_account_env
   \<and> data_online_main disabled_account_env = 0
   \<and> \<not> nodeloc_crashes failed_login_env
   \<and> n_exit (nodeloc_main failed_login_env) = 0"
proof -
  have p: "panel_completes part_done_env"
    "run_class_of (map server_ok (servers part_done_env)) = Partial_success"
    by (simp_all add: panel_completes_def part_done_env_def pause_interrupts_def
        restarting_server_def hanging_server_def run_class_of_def server_ok_def
        process_server_def)
  have d: "\<not> raises_after_login disabled_account_env" "online_completes disabled_account_env"
    "login disabled_account_env = Some Login_disabled"
    by (simp_all add: raises_after_login_def online_completes_def disabled_account_env_def)
  have n: "\<not> nodeloc_crashes failed_login_env"
    by (simp add: nodeloc_crashes_def failed_login_env_def)
  from exit_status_surface [of part_done_env disabled_account_env failed_login_env] p d n
  show ?thesis by simp
qed

text \<open>A run of the terminal script in which a step raises after a successful login:
  the handler leaves \<open>final_status\<close> at \<open>"success"\<close> and the status is 0.\<close>

lemma raise_after_login_status:
  "data_online_main
     \<lparr>has_username = True, has_password = True, has_command = True, browser_raises = False,
      login = Some Login_success, after_login = Step_raises, closing_raises = False\<rparr> = 0"
  by (simp add: data_online_main_def final_status_of_def)

text \<open>The claim as stated fails: a run in which all servers succeeded and one that
  succeeded in part end with the same status, and a check-in run that failed for its
  only account ends with the status of a success.\<close>

theorem exit_status_surface_counterexample:
  "run_class_of (map server_ok (servers all_done_env)) = All_succeeded
   \<and> run_class_of (map server_ok (servers part_done_env)) = Partial_success
   \<and> panel_main all_done_env = \<lparr>p_exit = 0, p_notice = Some (True, All_done)\<rparr>
   \<and> panel_main part_done_env = \<lparr>p_exit = 0, p_notice = Some (True, Part_done)\<rparr>
   \<and> nodeloc_main failed_login_env = \<lparr>n_exit = 0, n_counts = Some (0, 1)\<rparr>"
  by (simp add: run_class_of_def server_ok_def process_server_def panel_main_def
      all_done_env_def part_done_env_def restarting_server_def hanging_server_def
      reaches_pause_def nodeloc_main_def failed_login_env_def process_account_def
      tag_success_def tag_skipped_def tag_failure_def txt_account_def txt_login_failed_def
      mask_username_def last_chars_def)


end
